theory Spec2Isabelle
  imports Complex_Main "HOL-Library.Option_ord" "HOL-Library.Product_Lexorder"
begin

section \<open>Grid Normalizer: \<open>DuckDBInterpolator.interpolate_and_process\<close>\<close>

text \<open>
  The wide table is a pandas DataFrame: a date index and one numeric column per
  symbol metric. The staging tables hold calendar dates, so an index label is a day
  number. A cell is an observation or missing (pandas NaN); observations are finite
  numbers, idealised as rationals.
\<close>

type_synonym day = int
type_synonym pcell = "rat option"

record pd_frame =
  pd_index :: "day list"
  pd_columns :: "(string \<times> pcell list) list"

datatype pd_error = DuplicateLabels

text \<open>\<open>DataFrame.empty\<close>: some axis has length zero.\<close>

definition pd_empty :: "pd_frame \<Rightarrow> bool" where
  "pd_empty df \<longleftrightarrow> pd_index df = [] \<or> pd_columns df = []"

text \<open>\<open>df.index.min()\<close> and \<open>df.index.max()\<close> of a non-empty index.\<close>

definition index_min :: "day list \<Rightarrow> day" where
  "index_min ix = fold min (tl ix) (hd ix)"

definition index_max :: "day list \<Rightarrow> day" where
  "index_max ix = fold max (tl ix) (hd ix)"

text \<open>\<open>pd.date_range(start, end, freq='D')\<close>: every day from start to end.\<close>

definition date_range :: "day \<Rightarrow> day \<Rightarrow> day list" where
  "date_range start end = [start..end]"

text \<open>
  \<open>DataFrame.reindex(new_index)\<close>: the row of each new label is the old row with
  that label, or a row of NaN when the label is new. pandas refuses to reindex an
  axis with duplicate labels.
\<close>

definition reindex_column :: "day list \<Rightarrow> day list \<Rightarrow> pcell list \<Rightarrow> pcell list" where
  "reindex_column old_index new_index vs =
     map (\<lambda>t. case map_of (zip old_index vs) t of None \<Rightarrow> None | Some c \<Rightarrow> c) new_index"

definition reindex :: "day list \<Rightarrow> pd_frame \<Rightarrow> pd_error + pd_frame" where
  "reindex new_index df =
     (if \<not> distinct (pd_index df) then Inl DuplicateLabels
      else Inr \<lparr>pd_index = new_index,
                pd_columns = map (\<lambda>(c, vs). (c, reindex_column (pd_index df) new_index vs))
                                 (pd_columns df)\<rparr>)"

text \<open>\<open>Series.ffill()\<close>: a missing cell takes the last observation before it.\<close>

fun ffill_from :: "'a option \<Rightarrow> 'a option list \<Rightarrow> 'a option list" where
  "ffill_from prev [] = []"
| "ffill_from prev (None # xs) = prev # ffill_from prev xs"
| "ffill_from prev (Some v # xs) = Some v # ffill_from (Some v) xs"

definition ffill :: "'a option list \<Rightarrow> 'a option list" where
  "ffill xs = ffill_from None xs"

text \<open>
  \<open>interpolate(method='linear', limit_direction='both')\<close>: the rows are equally
  spaced; a missing cell at position \<open>i\<close> becomes \<open>numpy.interp\<close> of \<open>i\<close> over the
  observed positions, which is linear between two observations and the nearest
  observation outside them. A column with no observation stays as it is.
\<close>

fun valid_points :: "nat \<Rightarrow> pcell list \<Rightarrow> (nat \<times> rat) list" where
  "valid_points i [] = []"
| "valid_points i (None # ys) = valid_points (Suc i) ys"
| "valid_points i (Some v # ys) = (i, v) # valid_points (Suc i) ys"

fun np_interp :: "nat \<Rightarrow> (nat \<times> rat) list \<Rightarrow> rat option" where
  "np_interp x [] = None"
| "np_interp x [(x0, y0)] = Some y0"
| "np_interp x ((x0, y0) # (x1, y1) # ps) =
     (if x \<le> x0 then Some y0
      else if x < x1 then Some (y0 + (y1 - y0) / (of_nat x1 - of_nat x0) * (of_nat x - of_nat x0))
      else np_interp x ((x1, y1) # ps))"

definition interpolate_linear_both :: "pcell list \<Rightarrow> pcell list" where
  "interpolate_linear_both ys =
     (let valid = valid_points 0 ys
      in if valid = [] then ys
         else map (\<lambda>(i, c). case c of Some v \<Rightarrow> Some v | None \<Rightarrow> np_interp i valid)
                  (zip [0..<length ys] ys))"

text \<open>
  \<open>interpolate_and_process(df_wide, usrec_symbol)\<close>. The index labels are dates,
  never NaT, so a non-empty table is always reindexed. Every column of the pivot is
  numeric, so \<open>interpolation_cols\<close> is every column but \<open>usrec_symbol\<close>.
\<close>

definition fill_column :: "string \<Rightarrow> string \<Rightarrow> pcell list \<Rightarrow> pcell list" where
  "fill_column usrec_symbol c vs =
     (if c = usrec_symbol then ffill vs else interpolate_linear_both vs)"

definition interpolate_and_process :: "pd_frame \<Rightarrow> string \<Rightarrow> pd_error + pd_frame" where
  "interpolate_and_process df_wide usrec_symbol =
     (if pd_empty df_wide then Inr df_wide
      else
        let min_date = index_min (pd_index df_wide);
            max_date = index_max (pd_index df_wide);
            daily_range = date_range min_date max_date
        in case reindex daily_range df_wide of
             Inl e \<Rightarrow> Inl e
           | Inr df_processed \<Rightarrow>
               Inr (df_processed\<lparr>pd_columns :=
                      map (\<lambda>(c, vs). (c, fill_column usrec_symbol c vs))
                          (pd_columns df_processed)\<rparr>))"

text \<open>
  For stating what the fills do: a column \<open>vs\<close> of a table with index \<open>ix\<close> has the
  observation \<open>v\<close> on day \<open>d\<close>, or no observation on day \<open>d\<close>.
\<close>

abbreviation observed :: "day list \<Rightarrow> pcell list \<Rightarrow> day \<Rightarrow> rat \<Rightarrow> bool" where
  "observed ix vs d v \<equiv> \<exists>k<length ix. ix ! k = d \<and> vs ! k = Some v"

abbreviation unobserved :: "day list \<Rightarrow> pcell list \<Rightarrow> day \<Rightarrow> bool" where
  "unobserved ix vs d \<equiv> \<forall>k<length ix. ix ! k = d \<longrightarrow> vs ! k = None"

text \<open>A small wide table: three observed days, the regime column and two series.\<close>

definition example_wide :: pd_frame where
  "example_wide =
     \<lparr>pd_index = [10, 12, 15],
      pd_columns = [(''USREC'', [None, Some 1, None]),
                    (''X'', [Some 2, None, Some 7]),
                    (''Y'', [None, Some 4, None])]\<rparr>"

section \<open>Polars series\<close>

text \<open>
  The later stages work on polars Series. A Float64 value is a finite number
  (idealised as a rational), an infinity or NaN; a cell is a value or null, and NaN
  is not null. Arithmetic follows IEEE 754 on these classes (signed zeros are not
  distinguished).
\<close>

datatype fval = Fin rat | PInf | NInf | NaN

type_synonym cell = "fval option"

fun f_neg :: "fval \<Rightarrow> fval" where
  "f_neg (Fin a) = Fin (- a)"
| "f_neg PInf = NInf"
| "f_neg NInf = PInf"
| "f_neg NaN = NaN"

fun f_add :: "fval \<Rightarrow> fval \<Rightarrow> fval" where
  "f_add NaN _ = NaN"
| "f_add _ NaN = NaN"
| "f_add (Fin a) (Fin b) = Fin (a + b)"
| "f_add PInf NInf = NaN"
| "f_add NInf PInf = NaN"
| "f_add PInf _ = PInf"
| "f_add NInf _ = NInf"
| "f_add _ PInf = PInf"
| "f_add _ NInf = NInf"

definition f_sub :: "fval \<Rightarrow> fval \<Rightarrow> fval" where
  "f_sub a b = f_add a (f_neg b)"

definition inf_of_sign :: "bool \<Rightarrow> fval" where
  "inf_of_sign positive = (if positive then PInf else NInf)"

fun f_mul :: "fval \<Rightarrow> fval \<Rightarrow> fval" where
  "f_mul NaN _ = NaN"
| "f_mul _ NaN = NaN"
| "f_mul (Fin a) (Fin b) = Fin (a * b)"
| "f_mul (Fin a) PInf = (if a = 0 then NaN else inf_of_sign (0 < a))"
| "f_mul (Fin a) NInf = (if a = 0 then NaN else inf_of_sign (a < 0))"
| "f_mul PInf (Fin b) = (if b = 0 then NaN else inf_of_sign (0 < b))"
| "f_mul NInf (Fin b) = (if b = 0 then NaN else inf_of_sign (b < 0))"
| "f_mul PInf PInf = PInf"
| "f_mul PInf NInf = NInf"
| "f_mul NInf PInf = NInf"
| "f_mul NInf NInf = PInf"

fun f_div :: "fval \<Rightarrow> fval \<Rightarrow> fval" where
  "f_div NaN _ = NaN"
| "f_div _ NaN = NaN"
| "f_div (Fin a) (Fin b) =
     (if b = 0 then (if a = 0 then NaN else inf_of_sign (0 < a)) else Fin (a / b))"
| "f_div (Fin a) PInf = Fin 0"
| "f_div (Fin a) NInf = Fin 0"
| "f_div PInf (Fin b) = inf_of_sign (0 \<le> b)"
| "f_div NInf (Fin b) = inf_of_sign (b < 0)"
| "f_div PInf _ = NaN"
| "f_div NInf _ = NaN"

text \<open>An arithmetic operator on two columns works row by row; null absorbs.\<close>

definition lift2 :: "(fval \<Rightarrow> fval \<Rightarrow> fval) \<Rightarrow> cell \<Rightarrow> cell \<Rightarrow> cell" where
  "lift2 f a b = (case (a, b) of (Some x, Some y) \<Rightarrow> Some (f x y) | _ \<Rightarrow> None)"

datatype pl_dtype = Float64 | Int8 | Int16 | Int32 | Int64

definition is_float :: "pl_dtype \<Rightarrow> bool" where
  "is_float dt \<longleftrightarrow> dt = Float64"

fun int_bits :: "pl_dtype \<Rightarrow> nat" where
  "int_bits Int8 = 8"
| "int_bits Int16 = 16"
| "int_bits Int32 = 32"
| "int_bits Int64 = 64"
| "int_bits Float64 = 0"

record pl_series =
  s_name :: string
  s_dtype :: pl_dtype
  s_values :: "cell list"

text \<open>
  \<open>cast(dtype, strict=False)\<close>: a cast to Float64 keeps every value; a cast to an
  integer type truncates towards zero, and a value that does not fit (an infinity,
  NaN, or out of range) becomes null rather than an error.
\<close>

definition trunc_rat :: "rat \<Rightarrow> int" where
  "trunc_rat r = (if 0 \<le> r then \<lfloor>r\<rfloor> else \<lceil>r\<rceil>)"

definition cast_value :: "pl_dtype \<Rightarrow> fval \<Rightarrow> cell" where
  "cast_value dt v =
     (if is_float dt then Some v
      else case v of
             Fin r \<Rightarrow>
               (let t = trunc_rat r
                in if - (2 ^ (int_bits dt - 1)) \<le> t \<and> t < 2 ^ (int_bits dt - 1)
                   then Some (Fin (of_int t)) else None)
           | _ \<Rightarrow> None)"

definition cast :: "pl_series \<Rightarrow> pl_dtype \<Rightarrow> pl_series" where
  "cast s dt = s\<lparr>s_dtype := dt, s_values := map (\<lambda>c. Option.bind c (cast_value dt)) (s_values s)\<rparr>"

definition is_empty :: "pl_series \<Rightarrow> bool" where
  "is_empty s \<longleftrightarrow> s_values s = []"

definition all_null :: "pl_series \<Rightarrow> bool" where
  "all_null s \<longleftrightarrow> (\<forall>c\<in>set (s_values s). c = None)"

text \<open>\<open>pl.Series(name, [None] * n, dtype=dtype)\<close>.\<close>

definition null_series :: "string \<Rightarrow> nat \<Rightarrow> pl_dtype \<Rightarrow> pl_series" where
  "null_series nm n dt = \<lparr>s_name = nm, s_dtype = dt, s_values = replicate n None\<rparr>"

text \<open>
  \<open>Series.interpolate()\<close>: linear interpolation of the nulls between two values,
  as \<open>low + step * ((high - low) / steps)\<close>; leading and trailing nulls stay. The
  result of an integer series is Float64.
\<close>

definition interp_gap :: "fval \<Rightarrow> fval \<Rightarrow> nat \<Rightarrow> fval list" where
  "interp_gap low high n =
     map (\<lambda>k. f_add low (f_mul (Fin (of_nat k)) (f_div (f_sub high low) (Fin (of_nat n))))) [1..<n]"

fun interp_run :: "fval \<Rightarrow> nat \<Rightarrow> cell list \<Rightarrow> cell list" where
  "interp_run low gap [] = replicate gap None"
| "interp_run low gap (None # xs) = interp_run low (Suc gap) xs"
| "interp_run low gap (Some v # xs) =
     map Some (interp_gap low v (Suc gap)) @ Some v # interp_run v 0 xs"

fun interpolate_values :: "cell list \<Rightarrow> cell list" where
  "interpolate_values [] = []"
| "interpolate_values (None # xs) = None # interpolate_values xs"
| "interpolate_values (Some v # xs) = Some v # interp_run v 0 xs"

definition interpolate :: "pl_series \<Rightarrow> pl_series" where
  "interpolate s = s\<lparr>s_dtype := Float64, s_values := interpolate_values (s_values s)\<rparr>"

text \<open>\<open>fill_null(strategy="backward")\<close> and \<open>fill_null(strategy="forward")\<close>.\<close>

fun bfill :: "'a option list \<Rightarrow> 'a option list" where
  "bfill [] = []"
| "bfill (Some v # xs) = Some v # bfill xs"
| "bfill (None # xs) = (case bfill xs of [] \<Rightarrow> [None] | y # ys \<Rightarrow> y # y # ys)"

definition fill_null_backward :: "pl_series \<Rightarrow> pl_series" where
  "fill_null_backward s = s\<lparr>s_values := bfill (s_values s)\<rparr>"

definition fill_null_forward :: "pl_series \<Rightarrow> pl_series" where
  "fill_null_forward s = s\<lparr>s_values := ffill (s_values s)\<rparr>"

text \<open>\<open>to_numpy()\<close> of a float series: null becomes NaN.\<close>

definition to_numpy :: "pl_series \<Rightarrow> fval list" where
  "to_numpy s = map (\<lambda>c. case c of None \<Rightarrow> NaN | Some v \<Rightarrow> v) (s_values s)"

section \<open>Signal Smoother: \<open>apply_savgol_filter\<close>\<close>

text \<open>
  \<open>scipy.signal.savgol_filter\<close> is a library routine: it is a parameter of the model,
  a function from the array, window length, polynomial order and derivative order to
  the filtered array or the exception it raises. The handler of the source is
  \<open>except ValueError\<close>; numpy's \<open>LinAlgError\<close> is a subclass of \<open>ValueError\<close>.
\<close>

datatype py_exn = ValueError | LinAlgError | OtherException

definition is_ValueError :: "py_exn \<Rightarrow> bool" where
  "is_ValueError e \<longleftrightarrow> e = ValueError \<or> e = LinAlgError"

type_synonym savgol = "fval list \<Rightarrow> int \<Rightarrow> int \<Rightarrow> int \<Rightarrow> py_exn + fval list"

text \<open>Line 29: interpolate, then fill the ends.\<close>

definition s_processed :: "pl_series \<Rightarrow> pl_series" where
  "s_processed s = fill_null_forward (fill_null_backward (interpolate s))"

text \<open>Lines 36-39: the numpy array handed to the filter.\<close>

definition s_np :: "pl_series \<Rightarrow> fval list" where
  "s_np s =
     (if \<not> is_float (s_dtype (s_processed s)) then to_numpy (cast (s_processed s) Float64)
      else to_numpy (s_processed s))"

text \<open>Lines 42-48: make the window odd and larger than the polynomial order.\<close>

definition adjust_window :: "int \<Rightarrow> int \<Rightarrow> int" where
  "adjust_window window_length polyorder =
     (let w = (if window_length \<le> polyorder
               then polyorder + 1 + (if polyorder mod 2 = 0 then 1 else 0)
               else window_length)
      in if w mod 2 = 0 then w + 1 else w)"

text \<open>Line 51: \<open>np.count_nonzero(~np.isnan(s_np))\<close>.\<close>

definition num_valid_points :: "pl_series \<Rightarrow> int" where
  "num_valid_points s = int (length (filter (\<lambda>v. v \<noteq> NaN) (s_np s)))"

text \<open>Lines 55-57: the window may not exceed the number of valid points.\<close>

definition shrink_window :: "int \<Rightarrow> int \<Rightarrow> int" where
  "shrink_window w n =
     (if w > n then (if n mod 2 \<noteq> 0 then n else max 1 (n - 1)) else w)"

definition effective_window_length :: "pl_series \<Rightarrow> int \<Rightarrow> int \<Rightarrow> int" where
  "effective_window_length s window_length polyorder =
     shrink_window (adjust_window window_length polyorder) (num_valid_points s)"

text \<open>
  The cast back to the original dtype is not strict and cannot fail in the model, so
  the inner \<open>except pl.PolarsError\<close> is never taken.
\<close>

definition apply_savgol_filter ::
    "savgol \<Rightarrow> pl_series \<Rightarrow> int \<Rightarrow> int \<Rightarrow> int \<Rightarrow> py_exn + pl_series" where
  "apply_savgol_filter savgol_filter s window_length polyorder deriv =
     (let series_name = s_name s; original_dtype = s_dtype s
      in if is_empty s \<or> all_null s
         then Inr (if is_empty s then cast s original_dtype
                   else null_series series_name (length (s_values s)) original_dtype)
         else if all_null (s_processed s)
         then Inr (null_series series_name (length (s_values s)) original_dtype)
         else if num_valid_points s = 0
         then Inr (null_series series_name (length (s_values s)) original_dtype)
         else if effective_window_length s window_length polyorder \<le> polyorder
         then Inr (cast (s_processed s) original_dtype)
         else case savgol_filter (s_np s) (effective_window_length s window_length polyorder)
                     polyorder deriv of
                Inr filtered_array \<Rightarrow>
                  Inr (cast \<lparr>s_name = series_name, s_dtype = Float64,
                               s_values = map Some filtered_array\<rparr> original_dtype)
              | Inl e \<Rightarrow>
                  if is_ValueError e then Inr (cast (s_processed s) original_dtype)
                  else Inl e)"

text \<open>
  Two stand-ins for the filter, for running the model: one reports the window length
  it is called with on every row, one rejects every call as the library does for an
  ill-conditioned fit.
\<close>

definition probe_filter :: savgol where
  "probe_filter x w p d = Inr (map (\<lambda>_. Fin (of_int w)) x)"

definition failing_filter :: savgol where
  "failing_filter x w p d = Inl LinAlgError"

text \<open>A short float column with a leading and an interior null.\<close>

definition example_series :: pl_series where
  "example_series =
     \<lparr>s_name = ''X'', s_dtype = Float64, s_values = [None, Some (Fin 1), None, Some (Fin 3)]\<rparr>"

text \<open>A float column whose two values are NaN: not null, and not usable.\<close>

definition nan_series :: pl_series where
  "nan_series = \<lparr>s_name = ''X'', s_dtype = Float64, s_values = [Some NaN, Some NaN]\<rparr>"

section \<open>Derived Series Evaluator: \<open>AggregateSeriesCreator\<close>\<close>

text \<open>
  The evaluator works on a polars DataFrame: an ordered list of named columns, the
  first of which is the date column of the grid.
\<close>

datatype column = Dates "day list" | Nums "cell list"

type_synonym pl_frame = "(string \<times> column) list"

definition columns :: "pl_frame \<Rightarrow> string list" where
  "columns df = map fst df"

definition height :: "pl_frame \<Rightarrow> nat" where
  "height df = (case df of [] \<Rightarrow> 0
                | (_, Dates ds) # _ \<Rightarrow> length ds
                | (_, Nums vs) # _ \<Rightarrow> length vs)"

text \<open>
  \<open>pl.from_pandas(df_interpolated.reset_index())\<close> with the index column named
  \<open>date\<close>: NaN becomes null.
\<close>

definition from_pandas :: "pd_frame \<Rightarrow> pl_frame" where
  "from_pandas df =
     (''date'', Dates (pd_index df))
       # map (\<lambda>(c, vs). (c, Nums (map (map_option Fin) vs))) (pd_columns df)"

text \<open>
  The rules of the catalog are polars expressions built from columns, numeric
  literals, the four arithmetic operators and \<open>.replace(0, None)\<close>.
\<close>

datatype expr =
    Col string
  | Lit rat
  | Add expr expr
  | Sub expr expr
  | Mul expr expr
  | Div expr expr
  | Replace0Null expr

datatype pl_error = ColumnNotFound string | InvalidOperation

definition replace0 :: "cell \<Rightarrow> cell" where
  "replace0 c = (if c = Some (Fin 0) then None else c)"

definition binop :: "(fval \<Rightarrow> fval \<Rightarrow> fval) \<Rightarrow> pl_error + cell list \<Rightarrow> pl_error + cell list
    \<Rightarrow> pl_error + cell list" where
  "binop f a b =
     (case a of Inl e \<Rightarrow> Inl e
      | Inr xs \<Rightarrow> (case b of Inl e \<Rightarrow> Inl e
                  | Inr ys \<Rightarrow> Inr (map (\<lambda>(x, y). lift2 f x y) (zip xs ys))))"

fun eval_expr :: "pl_frame \<Rightarrow> expr \<Rightarrow> pl_error + cell list" where
  "eval_expr df (Col c) =
     (case map_of df c of
        None \<Rightarrow> Inl (ColumnNotFound c)
      | Some (Dates _) \<Rightarrow> Inl InvalidOperation
      | Some (Nums vs) \<Rightarrow> Inr vs)"
| "eval_expr df (Lit r) = Inr (replicate (height df) (Some (Fin r)))"
| "eval_expr df (Add a b) = binop f_add (eval_expr df a) (eval_expr df b)"
| "eval_expr df (Sub a b) = binop f_sub (eval_expr df a) (eval_expr df b)"
| "eval_expr df (Mul a b) = binop f_mul (eval_expr df a) (eval_expr df b)"
| "eval_expr df (Div a b) = binop f_div (eval_expr df a) (eval_expr df b)"
| "eval_expr df (Replace0Null a) =
     (case eval_expr df a of Inl e \<Rightarrow> Inl e | Inr xs \<Rightarrow> Inr (map replace0 xs))"

text \<open>\<open>df.with_columns(series.alias(name))\<close>: replace the column of that name, or append.\<close>

definition with_column :: "pl_frame \<Rightarrow> string \<Rightarrow> cell list \<Rightarrow> pl_frame" where
  "with_column df nm vs =
     (if nm \<in> set (columns df)
      then map (\<lambda>(c, old). if c = nm then (c, Nums vs) else (c, old)) df
      else df @ [(nm, Nums vs)])"

record series_def =
  components :: "string list"
  expr_lambda :: expr
  description :: string
  unit :: string

record symbol_entry =
  symbol :: string
  source :: string
  sym_description :: string
  sym_unit :: string

text \<open>The state of the loop in \<open>create_aggregate_series\<close>.\<close>

record agg_state =
  df_data_pl :: pl_frame
  new_symbols_metadata :: "symbol_entry list"
  successful_aggregates :: nat
  skipped_aggregates :: nat

text \<open>
  One iteration: a definition with a missing component is skipped; so is one whose
  rule raises (\<open>except Exception\<close>); otherwise the column is added and one metadata
  entry appended.
\<close>

definition agg_step :: "string \<times> series_def \<Rightarrow> agg_state \<Rightarrow> agg_state" where
  "agg_step item st =
     (let new_col_name = fst item; agg_details = snd item;
          missing_components =
            filter (\<lambda>comp. comp \<notin> set (columns (df_data_pl st))) (components agg_details)
      in if missing_components \<noteq> []
         then st\<lparr>skipped_aggregates := skipped_aggregates st + 1\<rparr>
         else case eval_expr (df_data_pl st) (expr_lambda agg_details) of
                Inl e \<Rightarrow> st\<lparr>skipped_aggregates := skipped_aggregates st + 1\<rparr>
              | Inr series \<Rightarrow>
                  st\<lparr>df_data_pl := with_column (df_data_pl st) new_col_name series,
                     new_symbols_metadata := new_symbols_metadata st @
                       [\<lparr>symbol = new_col_name, source = ''Calc'',
                         sym_description = description agg_details,
                         sym_unit = unit agg_details\<rparr>],
                     successful_aggregates := successful_aggregates st + 1\<rparr>)"

fun agg_loop :: "(string \<times> series_def) list \<Rightarrow> agg_state \<Rightarrow> agg_state" where
  "agg_loop [] st = st"
| "agg_loop (item # items) st = agg_loop items (agg_step item st)"

text \<open>
  \<open>_insert_symbols_to_duckdb\<close>: the entries whose symbol is not yet in the symbols
  table are inserted.
\<close>

definition insert_symbols :: "symbol_entry list \<Rightarrow> symbol_entry list \<Rightarrow> symbol_entry list" where
  "insert_symbols table symbols_metadata =
     table @ filter (\<lambda>e. symbol e \<notin> symbol ` set table) symbols_metadata"

text \<open>
  \<open>create_aggregate_series\<close>, from the interpolated grid, the catalog and the symbols
  table of the open connection (if any) to the final table, the symbols table and
  the loop's state. An empty grid is returned as it is. The final conversion back to
  pandas keeps the columns.
\<close>

record agg_result =
  final_frame :: pl_frame
  symbols_table :: "symbol_entry list option"
  final_state :: agg_state

definition create_aggregate_series ::
    "(string \<times> series_def) list \<Rightarrow> symbol_entry list option \<Rightarrow> pd_frame \<Rightarrow> agg_result option" where
  "create_aggregate_series aggregations_config con df_interpolated =
     (if pd_empty df_interpolated then None
      else
        let st = agg_loop aggregations_config
                   \<lparr>df_data_pl = from_pandas df_interpolated, new_symbols_metadata = [],
                    successful_aggregates = 0, skipped_aggregates = 0\<rparr>;
            table = (case con of
                       None \<Rightarrow> None
                     | Some t \<Rightarrow> if new_symbols_metadata st \<noteq> []
                                 then Some (insert_symbols t (new_symbols_metadata st))
                                 else Some t)
        in Some \<lparr>final_frame = df_data_pl st, symbols_table = table, final_state = st\<rparr>)"

text \<open>The catalog of \<open>_get_aggregations_config\<close>, in its order.\<close>

definition aggregations_config :: "(string \<times> series_def) list" where
  "aggregations_config =
     [
      (''RSALESAGG'',
       \<lparr>components = [''RRSFS'', ''RSALES''],
        expr_lambda = Div (Add (Col ''RRSFS'') (Col ''RSALES'')) (Lit 2),
        description = ''Real Retail and Food Services Sales (Mean of RRSFS and RSALES)'',
        unit = ''Millions of Dollars''\<rparr>),
      (''BUSLOANS_minus_BUSLOANSNSA'',
       \<lparr>components = [''BUSLOANS'', ''BUSLOANSNSA''],
        expr_lambda = Sub (Col ''BUSLOANS'') (Col ''BUSLOANSNSA''),
        description = ''Business Loans (Monthly) SA - NSA'',
        unit = ''Billions of U.S. Dollars''\<rparr>),
      (''BUSLOANS_minus_BUSLOANSNSA_by_GDP'',
       \<lparr>components = [''BUSLOANS_minus_BUSLOANSNSA'', ''GDP''],
        expr_lambda = Mul (Div (Col ''BUSLOANS_minus_BUSLOANSNSA'') (Col ''GDP'')) (Lit 100),
        description = ''Business Loans (Monthly) SA - NSA divided by GDP'',
        unit = ''Percent''\<rparr>),
      (''BUSLOANS_by_GDP'',
       \<lparr>components = [''BUSLOANS'', ''GDP''],
        expr_lambda = Mul (Div (Col ''BUSLOANS'') (Col ''GDP'')) (Lit 100),
        description = ''Business Loans (Monthly, SA) Normalized by GDP'',
        unit = ''Percent''\<rparr>),
      (''BUSLOANS_INTEREST'',
       \<lparr>components = [''BUSLOANS'', ''DGS10''],
        expr_lambda = Div (Mul (Col ''BUSLOANS'') (Col ''DGS10'')) (Lit 100),
        description = ''Business Loans (Monthly, SA) Adjusted Interest Burdens (using DGS10)'',
        unit = ''Calculated Billions of U.S. Dollars''\<rparr>),
      (''BUSLOANS_INTEREST_by_GDP'',
       \<lparr>components = [''BUSLOANS_INTEREST'', ''GDP''],
        expr_lambda = Mul (Div (Col ''BUSLOANS_INTEREST'') (Col ''GDP'')) (Lit 100),
        description = ''Business Loans (Monthly, SA) Adjusted Interest Burden Divided by GDP'',
        unit = ''Percent''\<rparr>),
      (''W875RX1_by_GDP'',
       \<lparr>components = [''W875RX1'', ''GDP''],
        expr_lambda = Mul (Div (Col ''W875RX1'') (Col ''GDP'')) (Lit 100),
        description = ''Real Personal Income Normalized by GDP'',
        unit = ''Percent''\<rparr>),
      (''PI_by_GDP'',
       \<lparr>components = [''PI'', ''GDP''],
        expr_lambda = Mul (Div (Col ''PI'') (Col ''GDP'')) (Lit 100),
        description = ''Personal Income (SA) Normalized by GDP'',
        unit = ''Percent''\<rparr>),
      (''CPROFIT_by_GDP'',
       \<lparr>components = [''CPROFIT'', ''GDP''],
        expr_lambda = Mul (Div (Col ''CPROFIT'') (Col ''GDP'')) (Lit 100),
        description = ''National income: Corporate profits before tax (with IVA and CCAdj) Normalized by GDP'',
        unit = ''Percent''\<rparr>),
      (''TOTLNNSA'',
       \<lparr>components = [''BUSLOANS'', ''REALLNNSA'', ''CONSUMERNSA''],
        expr_lambda = Add (Add (Col ''BUSLOANS'') (Col ''REALLNNSA'')) (Col ''CONSUMERNSA''),
        description = ''Total Loans, Not Seasonally Adjusted (BUSLOANS + REALLNNSA + CONSUMERNSA)'',
        unit = ''Billions of U.S. Dollars''\<rparr>),
      (''TOTLNNSA_by_GDP'',
       \<lparr>components = [''TOTLNNSA'', ''GDP''],
        expr_lambda = Mul (Div (Col ''TOTLNNSA'') (Col ''GDP'')) (Lit 100),
        description = ''Total Loans, Not Seasonally Adjusted, divided by GDP'',
        unit = ''Percent''\<rparr>),
      (''WRESBAL_by_GDP'',
       \<lparr>components = [''WRESBAL'', ''GDP''],
        expr_lambda = Mul (Div (Col ''WRESBAL'') (Col ''GDP'')) (Lit 100),
        description = ''Reserve Balances with Federal Reserve Banks Divided by GDP'',
        unit = ''Percent''\<rparr>),
      (''DGS30_to_DGS10'',
       \<lparr>components = [''DGS30'', ''DGS10''],
        expr_lambda = Sub (Col ''DGS30'') (Col ''DGS10''),
        description = ''Yield Curve: 30-Year Treasury Constant Maturity Minus 10-Year Treasury Constant Maturity'',
        unit = ''Percent''\<rparr>),
      (''DGS10_to_DGS2'',
       \<lparr>components = [''DGS10'', ''DGS2''],
        expr_lambda = Sub (Col ''DGS10'') (Col ''DGS2''),
        description = ''Yield Curve: 10-Year Treasury Constant Maturity Minus 2-Year Treasury Constant Maturity'',
        unit = ''Percent''\<rparr>),
      (''DGS10_to_TB3MS'',
       \<lparr>components = [''DGS10'', ''TB3MS''],
        expr_lambda = Sub (Col ''DGS10'') (Col ''TB3MS''),
        description = ''Yield Curve: 10-Year Treasury Constant Maturity Minus 3-Month Treasury Bill Secondary Market Rate'',
        unit = ''Percent''\<rparr>),
      (''AAA_div_DGS10'',
       \<lparr>components = [''AAA'', ''DGS10''],
        expr_lambda = Div (Col ''AAA'') (Col ''DGS10''),
        description = ''Moody's Seasoned Aaa Corporate Bond Yield Relative to 10-Year Treasury Constant Maturity (AAA/DGS10)'',
        unit = ''Ratio''\<rparr>),
      (''UNEMPLOY_by_POPTHM'',
       \<lparr>components = [''UNEMPLOY'', ''POPTHM''],
        expr_lambda = Mul (Div (Col ''UNEMPLOY'') (Col ''POPTHM'')) (Lit 100),
        description = ''Unemployment Level (SA) / Population'',
        unit = ''%''\<rparr>),
      (''U6_to_U3'',
       \<lparr>components = [''U6RATE'', ''UNRATE''],
        expr_lambda = Sub (Col ''U6RATE'') (Col ''UNRATE''),
        description = ''U-6 Unemployment Rate Minus U-3 Unemployment Rate (U6RATE - UNRATE)'',
        unit = ''%''\<rparr>),
      (''DCOILWTICO_by_PPIACO'',
       \<lparr>components = [''DCOILWTICO'', ''PPIACO''],
        expr_lambda = Div (Col ''DCOILWTICO'') (Col ''PPIACO''),
        description = ''Crude Oil WTI Price Normalized by Producer Price Index: All Commodities'',
        unit = ''$/bbl/Index''\<rparr>),
      (''GDP_by_POPTHM'',
       \<lparr>components = [''GDP'', ''POPTHM''],
        expr_lambda = Div (Mul (Col ''GDP'') (Lit 1000000)) (Col ''POPTHM''),
        description = ''GDP per Capita'',
        unit = ''$/person''\<rparr>),
      (''GDP_by_CPIAUCSL'',
       \<lparr>components = [''GDP'', ''CPIAUCSL''],
        expr_lambda = Div (Col ''GDP'') (Div (Col ''CPIAUCSL'') (Lit 100)),
        description = ''GDP Deflated by CPI (CPIAUCSL)'',
        unit = ''Billions of Constant Dollars''\<rparr>),
      (''GDP_by_CPIAUCSL_by_POPTHM'',
       \<lparr>components = [''GDP_by_CPIAUCSL'', ''POPTHM''],
        expr_lambda = Div (Mul (Col ''GDP_by_CPIAUCSL'') (Lit 1000000)) (Col ''POPTHM''),
        description = ''GDP Deflated by CPI, per Capita'',
        unit = ''Constant $/Person''\<rparr>),
      (''GSPC_Close_by_MDY_Close'',
       \<lparr>components = [''^GSPC_close'', ''MDY_close''],
        expr_lambda = Div (Col ''^GSPC_close'') (Col ''MDY_close''),
        description = ''S&P 500 Close Normalized by S&P MidCap 400 Close'',
        unit = ''Ratio''\<rparr>),
      (''QQQ_Close_by_MDY_Close'',
       \<lparr>components = [''QQQ_close'', ''MDY_close''],
        expr_lambda = Div (Col ''QQQ_close'') (Col ''MDY_close''),
        description = ''Nasdaq 100 Close (QQQ) Normalized by S&P MidCap 400 Close'',
        unit = ''Ratio''\<rparr>),
      (''GSPC_DailySwing'',
       \<lparr>components = [''^GSPC_high'', ''^GSPC_low'', ''^GSPC_open''],
        expr_lambda = Div (Sub (Col ''^GSPC_high'') (Col ''^GSPC_low'')) (Replace0Null (Col ''^GSPC_open'')),
        description = ''S&P 500 (GSPC) Daily Swing: (High - Low) / Open'',
        unit = ''Ratio''\<rparr>),
      (''GSPC_Close_by_GDPDEF'',
       \<lparr>components = [''^GSPC_close'', ''GDPDEF''],
        expr_lambda = Div (Col ''^GSPC_close'') (Div (Col ''GDPDEF'') (Lit 100)),
        description = ''S&P 500 (GSPC) Close Deflated by GDP Deflator'',
        unit = ''Constant Dollars''\<rparr>),
      (''GSPC_open_by_GDPDEF'',
       \<lparr>components = [''^GSPC_open'', ''GDPDEF''],
        expr_lambda = Div (Col ''^GSPC_open'') (Div (Col ''GDPDEF'') (Lit 100)),
        description = ''S&P 500 (GSPC) Open Deflated by GDP Deflator'',
        unit = ''Constant Dollars''\<rparr>),
      (''HOUST_div_POPTHM'',
       \<lparr>components = [''HOUST'', ''POPTHM''],
        expr_lambda = Div (Col ''HOUST'') (Col ''POPTHM''),
        description = ''Housing Starts per Capita (Thousands of Units SAAR / Thousands of Persons)'',
        unit = ''Starts per 1000 Persons''\<rparr>),
      (''MSPUS_times_HOUST'',
       \<lparr>components = [''MSPUS'', ''HOUST''],
        expr_lambda = Div (Mul (Col ''MSPUS'') (Col ''HOUST'')) (Lit 1000),
        description = ''Median Sales Price of New Houses Sold times Housing Starts (Value of New Construction Started)'',
        unit = ''Millions of Dollars''\<rparr>),
      (''FARMINCOME_by_GDP'',
       \<lparr>components = [''USDA_NET_FARM_INCOME'', ''GDP''],
        expr_lambda = Mul (Div (Col ''USDA_NET_FARM_INCOME'') (Col ''GDP'')) (Lit 100),
        description = ''Farm Income (Annual, NSA) Divided by GDP'',
        unit = ''Percent''\<rparr>),
      (''GSG_Close_by_GDPDEF'',
       \<lparr>components = [''GSG_close'', ''GDPDEF''],
        expr_lambda = Div (Col ''GSG_close'') (Col ''GDPDEF''),
        description = ''GSCI Commodity-Indexed Trust (GSG Close) Normalized by GDP Deflator'',
        unit = ''Ratio''\<rparr>),
      (''GSG_Close_by_GSPC_Close'',
       \<lparr>components = [''GSG_close'', ''^GSPC_close''],
        expr_lambda = Div (Col ''GSG_close'') (Col ''^GSPC_close''),
        description = ''GSCI Commodity-Indexed Trust (GSG Close) Normalized by S&P 500 Close (GSPC Close)'',
        unit = ''Ratio''\<rparr>)]"

text \<open>
  A two-day grid with business loans, GDP and the S&P 500 fields; on the second day
  GDP and the opening price are zero.
\<close>

definition example_grid :: pd_frame where
  "example_grid =
     \<lparr>pd_index = [0, 1],
      pd_columns = [(''BUSLOANS'', [Some 10, Some 12]),
                    (''GDP'', [Some 200, Some 0]),
                    (''^GSPC_high'', [Some 11, Some 9]),
                    (''^GSPC_low'', [Some 9, Some 8]),
                    (''^GSPC_open'', [Some 10, Some 0])]\<rparr>"

section \<open>Per-Symbol Feature Generator\<close>

text \<open>
  \<open>Series.shift(n)\<close>: the values move \<open>n\<close> rows down (up for a negative \<open>n\<close>) and the
  rows left open are null.
\<close>

definition shift_values :: "int \<Rightarrow> cell list \<Rightarrow> cell list" where
  "shift_values n xs =
     (if 0 \<le> n
      then replicate (min (nat n) (length xs)) None @ take (length xs - nat n) xs
      else drop (nat (- n)) xs @ replicate (min (nat (- n)) (length xs)) None)"

text \<open>One row of \<open>((s / s.shift(lag)) - 1) * 100\<close>.\<close>

definition yoy_cell :: "cell \<Rightarrow> cell \<Rightarrow> cell" where
  "yoy_cell a b = lift2 f_mul (lift2 f_sub (lift2 f_div a b) (Some (Fin 1))) (Some (Fin 100))"

definition yoy_series :: "pl_series \<Rightarrow> int \<Rightarrow> string \<Rightarrow> pl_series" where
  "yoy_series original_series lag new_name =
     \<lparr>s_name = new_name, s_dtype = Float64,
      s_values = map (\<lambda>(a, b). yoy_cell a b)
                     (zip (s_values original_series) (shift_values lag (s_values original_series)))\<rparr>"

record feature_meta =
  m_symbol :: string
  m_source :: string
  m_description :: string
  m_label_y :: string
  m_series_start :: string
  m_series_end :: string

definition calculate_yoy_features_series ::
    "pl_series \<Rightarrow> string \<Rightarrow> string \<Rightarrow> string \<Rightarrow> string \<Rightarrow> int
       \<Rightarrow> pl_series list \<times> feature_meta list" where
  "calculate_yoy_features_series original_series symbol_name_prefix description_r
       series_start_date_str series_end_date_str n_days_year =
     (let new_col_yoy_name = symbol_name_prefix @ ''_YoY'';
          new_col_yoy4_name = symbol_name_prefix @ ''_YoY4'';
          new_col_yoy5_name = symbol_name_prefix @ ''_YoY5''
      in ([yoy_series original_series n_days_year new_col_yoy_name,
           yoy_series original_series (n_days_year * 4) new_col_yoy4_name,
           yoy_series original_series (n_days_year * 5) new_col_yoy5_name],
          [\<lparr>m_symbol = new_col_yoy_name, m_source = ''Calc'',
            m_description = description_r @ ''\<newline>Year over Year'', m_label_y = ''Percent'',
            m_series_start = series_start_date_str, m_series_end = series_end_date_str\<rparr>,
           \<lparr>m_symbol = new_col_yoy4_name, m_source = ''Calc'',
            m_description = description_r @ ''\<newline>4 Year over 4 Year'', m_label_y = ''Percent'',
            m_series_start = series_start_date_str, m_series_end = series_end_date_str\<rparr>,
           \<lparr>m_symbol = new_col_yoy5_name, m_source = ''Calc'',
            m_description = description_r @ ''\<newline>5 Year over 5 Year'', m_label_y = ''Percent'',
            m_series_start = series_start_date_str, m_series_end = series_end_date_str\<rparr>]))"

text \<open>\<open>str(n)\<close> of an integer, for the f-strings of the metadata.\<close>

function str_nat :: "nat \<Rightarrow> string" where
  "str_nat n =
     (if n < 10 then [char_of (48 + n)]
      else str_nat (n div 10) @ [char_of (48 + n mod 10)])"
  by pat_completeness auto
termination
  by (relation "measure id") auto

definition str_int :: "int \<Rightarrow> string" where
  "str_int i = (if i < 0 then CHR ''-'' # str_nat (nat (- i)) else str_nat (nat i))"

text \<open>
  \<open>rolling_mean(window_size, min_periods)\<close>: the mean of the non-null values among
  the last \<open>window_size\<close> rows, null when fewer than \<open>min_periods\<close> of them are
  non-null. polars rejects a window smaller than \<open>min_periods\<close>.
\<close>

definition window_mean :: "nat \<Rightarrow> cell list \<Rightarrow> cell" where
  "window_mean min_periods window =
     (let vals = concat (map (\<lambda>c. case c of None \<Rightarrow> [] | Some v \<Rightarrow> [v]) window)
      in if length vals < min_periods then None
         else Some (f_div (foldl f_add (Fin 0) vals) (Fin (of_nat (length vals)))))"

definition rolling_mean :: "int \<Rightarrow> nat \<Rightarrow> cell list \<Rightarrow> pl_error + cell list" where
  "rolling_mean window_size min_periods xs =
     (if window_size < int min_periods then Inl InvalidOperation
      else Inr (map (\<lambda>t. window_mean min_periods
                            (take (Suc t - (Suc t - nat window_size))
                               (drop (Suc t - nat window_size) xs)))
                    [0..<length xs]))"

definition drop_nulls :: "cell list \<Rightarrow> cell list" where
  "drop_nulls xs = filter (\<lambda>c. c \<noteq> None) xs"

text \<open>One iteration of the loop over \<open>mva_configs\<close>.\<close>

definition mva_feature ::
    "pl_series \<Rightarrow> string \<Rightarrow> string \<Rightarrow> string \<Rightarrow> string \<Rightarrow> string \<Rightarrow> string \<times> int
       \<Rightarrow> pl_error + pl_series \<times> feature_meta" where
  "mva_feature original_series symbol_name_prefix description_r label_y_r
       series_start_date_str series_end_date_str cfg =
     (let suffix = fst cfg; window = snd cfg;
          new_col_mva_name = symbol_name_prefix @ suffix
      in if int (length (drop_nulls (s_values original_series))) \<ge> window
         then case rolling_mean window 1 (s_values original_series) of
                Inl e \<Rightarrow> Inl e
              | Inr means \<Rightarrow>
                  Inr (\<lparr>s_name = new_col_mva_name, s_dtype = Float64,
                        s_values = interpolate_values means\<rparr>,
                       \<lparr>m_symbol = new_col_mva_name, m_source = ''Calc'',
                        m_description = description_r @ '' '' @ str_int window @ '' Day MA'',
                        m_label_y = label_y_r @ '' '' @ str_int window @ '' Day MA'',
                        m_series_start = series_start_date_str,
                        m_series_end = series_end_date_str\<rparr>)
         else Inr (null_series new_col_mva_name (length (s_values original_series)) Float64,
                   \<lparr>m_symbol = new_col_mva_name, m_source = ''Calc (Skipped)'',
                    m_description = description_r @ '' '' @ str_int window @ '' Day MA - SKIPPED'',
                    m_label_y = label_y_r @ '' '' @ str_int window @ '' Day MA'',
                    m_series_start = series_start_date_str,
                    m_series_end = series_end_date_str\<rparr>))"

fun mva_loop ::
    "(string \<times> int \<Rightarrow> pl_error + pl_series \<times> feature_meta) \<Rightarrow> (string \<times> int) list
       \<Rightarrow> pl_error + pl_series list \<times> feature_meta list" where
  "mva_loop body [] = Inr ([], [])"
| "mva_loop body (cfg # cfgs) =
     (case body cfg of
        Inl e \<Rightarrow> Inl e
      | Inr (feature, meta) \<Rightarrow>
          (case mva_loop body cfgs of
             Inl e \<Rightarrow> Inl e
           | Inr (features, metas) \<Rightarrow> Inr (feature # features, meta # metas)))"

definition mva_configs :: "int \<Rightarrow> (string \<times> int) list" where
  "mva_configs n_days_year = [(''_mva365'', n_days_year), (''_mva200'', 200), (''_mva050'', 50)]"

definition calculate_mva_features_series ::
    "pl_series \<Rightarrow> string \<Rightarrow> string \<Rightarrow> string \<Rightarrow> string \<Rightarrow> string \<Rightarrow> int
       \<Rightarrow> pl_error + pl_series list \<times> feature_meta list" where
  "calculate_mva_features_series original_series symbol_name_prefix description_r label_y_r
       series_start_date_str series_end_date_str n_days_year =
     mva_loop (mva_feature original_series symbol_name_prefix description_r label_y_r
                 series_start_date_str series_end_date_str)
              (mva_configs n_days_year)"

text \<open>A column of 366 daily rows, 100 on the first day and one more each day.\<close>

definition example_year :: pl_series where
  "example_year =
     \<lparr>s_name = ''X'', s_dtype = Float64,
      s_values = map (\<lambda>i. Some (Fin (of_nat i + 100))) [0..<366]\<rparr>"

section \<open>Recession Window Labeler: \<open>add_recession_features\<close>\<close>

text \<open>
  A calendar date is a year, a month and a day, ordered lexicographically. The date
  column of the grid is its index and has no null; the regime column \<open>USREC\<close> may
  start with nulls. Its values are small integers (0 and 1), so the difference of
  two of them does not overflow.
\<close>

type_synonym date = "int \<times> nat \<times> nat"

definition is_leap :: "int \<Rightarrow> bool" where
  "is_leap y \<longleftrightarrow> y mod 4 = 0 \<and> (y mod 100 \<noteq> 0 \<or> y mod 400 = 0)"

definition days_in_month :: "int \<Rightarrow> nat \<Rightarrow> nat" where
  "days_in_month y m =
     (if m = 2 then (if is_leap y then 29 else 28)
      else if m = 4 \<or> m = 6 \<or> m = 9 \<or> m = 11 then 30 else 31)"

text \<open>\<open>dt.month_start()\<close>, \<open>dt.offset_by("-1y")\<close> and \<open>dt.offset_by("-1mo")\<close>.\<close>

fun month_start :: "date \<Rightarrow> date" where
  "month_start (y, m, d) = (y, m, 1)"

fun offset_minus_1y :: "date \<Rightarrow> date" where
  "offset_minus_1y (y, m, d) = (y - 1, m, min d (days_in_month (y - 1) m))"

fun offset_minus_1mo :: "date \<Rightarrow> date" where
  "offset_minus_1mo (y, m, d) =
     (if m = 1 then (y - 1, 12, min d (days_in_month (y - 1) 12))
      else (y, m - 1, min d (days_in_month y (m - 1))))"

text \<open>\<open>pl.col("USREC").diff()\<close>: null on the first row and where either value is null.\<close>

definition diff_cell :: "int option \<Rightarrow> int option \<Rightarrow> int option" where
  "diff_cell prev cur = (case (prev, cur) of (Some a, Some b) \<Rightarrow> Some (b - a) | _ \<Rightarrow> None)"

fun diff_values :: "int option list \<Rightarrow> int option list" where
  "diff_values [] = []"
| "diff_values (x # xs) = None # map (\<lambda>(a, b). diff_cell a b) (zip (x # xs) xs)"

text \<open>The rows of \<open>df_data\<close>: the date and \<open>USREC\<close>, sorted by date.\<close>

type_synonym rec_rows = "(date \<times> int option) list"

definition sort_by_date :: "rec_rows \<Rightarrow> rec_rows" where
  "sort_by_date rows = sort_key fst rows"

definition dates_where_diff :: "int \<Rightarrow> rec_rows \<Rightarrow> date list" where
  "dates_where_diff k rows =
     map fst (filter (\<lambda>(d, x). x = Some k) (zip (map fst rows) (diff_values (map snd rows))))"

record episode =
  initStart :: date
  initEnd :: date
  ep_start :: date
  ep_end :: date

definition date_min :: "date list \<Rightarrow> date option" where
  "date_min ds = (case ds of [] \<Rightarrow> None | d # rest \<Rightarrow> Some (fold min rest d))"

text \<open>
  Lines 59-105: the start and end dates of the episodes, the initiation period of
  each start, and the table \<open>df_recession\<close>. The result is None when there is no
  start date, where the function writes its input back unchanged.
\<close>

definition df_recession :: "date \<Rightarrow> rec_rows \<Rightarrow> episode list option" where
  "df_recession today rows =
     (let df_data = sort_by_date rows;
          dt_start_dates = dates_where_diff 1 df_data;
          dt_end_dates = dates_where_diff (- 1) df_data
      in if dt_start_dates = [] then None
         else
           let dt_init_start = map (offset_minus_1y \<circ> month_start) dt_start_dates;
               dt_init_end = map (offset_minus_1mo \<circ> month_start) dt_start_dates;
               dt_end_dates1 =
                 (if dt_end_dates \<noteq> [] \<and> dt_start_dates \<noteq> [] \<and> hd dt_end_dates < hd dt_start_dates
                  then tl dt_end_dates else dt_end_dates);
               dt_end_dates2 =
                 (if length dt_end_dates1 < length dt_start_dates
                  then dt_end_dates1 @ [today] else dt_end_dates1);
               max_len = min (min (length dt_init_start) (length dt_init_end))
                             (min (length dt_start_dates) (length dt_end_dates2))
           in if max_len = 0 then Some []
              else
                let table = map (\<lambda>(is, ie, s, e).
                                   \<lparr>initStart = is, initEnd = ie, ep_start = s, ep_end = e\<rparr>)
                              (zip (take max_len dt_init_start)
                                (zip (take max_len dt_init_end)
                                  (zip (take max_len dt_start_dates) (take max_len dt_end_dates2))))
                in case date_min (map fst df_data) of
                     None \<Rightarrow> Some table
                   | Some min_overall_date \<Rightarrow>
                       if table \<noteq> [] then Some (filter (\<lambda>r. ep_start r \<ge> min_overall_date) table)
                       else Some table)"

text \<open>
  Lines 108-118: \<open>RecInit\<close> starts at 0 and every row of \<open>df_recession\<close> sets it to 1
  on the dates strictly between its \<open>initStart\<close> and \<open>initEnd\<close> (which are never null
  here).
\<close>

definition mark_window :: "date list \<Rightarrow> episode \<Rightarrow> int list \<Rightarrow> int list" where
  "mark_window dates row rec_init =
     map (\<lambda>(d, r). if d > initStart row \<and> d < initEnd row then 1 else r) (zip dates rec_init)"

definition rec_init :: "date \<Rightarrow> rec_rows \<Rightarrow> int list option" where
  "rec_init today rows =
     (case df_recession today rows of
        None \<Rightarrow> None
      | Some table \<Rightarrow>
          let dates = map fst (sort_by_date rows)
          in Some (fold (mark_window dates) table (replicate (length dates) 0)))"


section \<open>Properties of the Grid Normalizer\<close>

lemma index_min_Min: "ix \<noteq> [] \<Longrightarrow> index_min ix = Min (set ix)"
  by (cases ix) (simp_all add: index_min_def Min.set_eq_fold[symmetric] del: set_simps)

lemma index_max_Max: "ix \<noteq> [] \<Longrightarrow> index_max ix = Max (set ix)"
  by (cases ix) (simp_all add: index_max_def Max.set_eq_fold[symmetric] del: set_simps)

lemma length_ffill_from [simp]: "length (ffill_from p xs) = length xs"
  by (induction p xs rule: ffill_from.induct) simp_all

lemma length_ffill [simp]: "length (ffill xs) = length xs"
  by (simp add: ffill_def)

lemma length_interpolate_linear_both [simp]: "length (interpolate_linear_both ys) = length ys"
  by (simp add: interpolate_linear_both_def Let_def)

lemma length_reindex_column [simp]: "length (reindex_column old new vs) = length new"
  by (simp add: reindex_column_def)

lemma length_fill_column [simp]: "length (fill_column u c vs) = length vs"
  by (simp add: fill_column_def)


lemma ffill_from_leading:
  "i < length xs \<Longrightarrow> (\<forall>j\<le>i. xs ! j = None) \<Longrightarrow> ffill_from None xs ! i = None"
proof (induction xs arbitrary: i)
  case Nil then show ?case by simp
next
  case (Cons x xs)
  from Cons.prems(2) have x: "x = None" by (metis le0 nth_Cons_0)
  show ?case
  proof (cases i)
    case 0 then show ?thesis using x by simp
  next
    case (Suc k)
    have "\<forall>j\<le>k. xs ! j = None" using Cons.prems(2) Suc by (metis Suc_le_mono nth_Cons_Suc)
    then show ?thesis using Cons.IH[of k] Cons.prems(1) Suc x by simp
  qed
qed

lemma valid_points_empty_iff: "valid_points i ys = [] \<longleftrightarrow> (\<forall>c\<in>set ys. c = None)"
  by (induction i ys rule: valid_points.induct) auto

lemma np_interp_defined: "ps \<noteq> [] \<Longrightarrow> np_interp x ps \<noteq> None"
  by (induction x ps rule: np_interp.induct) auto

lemma interpolate_no_null:
  assumes "Some v \<in> set ys"
  shows "None \<notin> set (interpolate_linear_both ys)"
proof -
  from assms have ne: "valid_points 0 ys \<noteq> []" by (auto simp: valid_points_empty_iff)
  have "c \<noteq> None" if "c \<in> set (interpolate_linear_both ys)" for c
  proof -
    from that ne obtain i c0 where
      "c = (case c0 of Some v \<Rightarrow> Some v | None \<Rightarrow> np_interp i (valid_points 0 ys))"
      by (auto simp: interpolate_linear_both_def Let_def)
    then show ?thesis using np_interp_defined[OF ne, of i] by (cases c0) auto
  qed
  then show ?thesis by blast
qed

lemma map_snd_valid_points: "map (Some \<circ> snd) (valid_points i ys) = filter (\<lambda>c. c \<noteq> None) ys"
  by (induction i ys rule: valid_points.induct) auto

lemma interpolate_single:
  assumes "filter (\<lambda>c. c \<noteq> None) ys = [Some v]"
  shows "interpolate_linear_both ys = replicate (length ys) (Some v)"
proof -
  from assms have "map (Some \<circ> snd) (valid_points 0 ys) = [Some v]"
    by (simp add: map_snd_valid_points)
  then obtain k where vp: "valid_points 0 ys = [(k, v)]" by auto
  have only: "c = Some v" if "c \<in> set ys" "c \<noteq> None" for c
  proof -
    from that have "c \<in> set (filter (\<lambda>c. c \<noteq> None) ys)" by simp
    then show ?thesis unfolding assms by simp
  qed
  have "interpolate_linear_both ys =
          map (\<lambda>(i, c). case c of Some w \<Rightarrow> Some w | None \<Rightarrow> np_interp i [(k, v)])
              (zip [0..<length ys] ys)"
    by (simp add: interpolate_linear_both_def Let_def vp)
  also have "\<dots> = replicate (length ys) (Some v)"
  proof (rule nth_equalityI)
    show "length (map (\<lambda>(i, c). case c of Some w \<Rightarrow> Some w | None \<Rightarrow> np_interp i [(k, v)])
              (zip [0..<length ys] ys)) = length (replicate (length ys) (Some v))"
      by simp
  next
    fix i
    assume "i < length (map (\<lambda>(i, c). case c of Some w \<Rightarrow> Some w | None \<Rightarrow> np_interp i [(k, v)])
              (zip [0..<length ys] ys))"
    then have i: "i < length ys" by simp
    then have "ys ! i \<in> set ys" by simp
    from only[OF this] i
    show "map (\<lambda>(i, c). case c of Some w \<Rightarrow> Some w | None \<Rightarrow> np_interp i [(k, v)])
              (zip [0..<length ys] ys) ! i = replicate (length ys) (Some v) ! i"
      by (cases "ys ! i") auto
  qed
  finally show ?thesis .
qed

lemma reindex_lookup_nth:
  assumes "distinct ix" "length vs = length ix" "k < length ix"
  shows "map_of (zip ix vs) (ix ! k) = Some (vs ! k)"
  using assms by (simp add: map_of_zip_nth)

lemma reindex_column_keeps:
  assumes "distinct ix" "length vs = length ix" "set ix \<subseteq> set new" "Some v \<in> set vs"
  shows "Some v \<in> set (reindex_column ix new vs)"
proof -
  from assms(4) obtain k where k: "k < length vs" "vs ! k = Some v"
    by (auto simp: in_set_conv_nth)
  then have "ix ! k \<in> set new" using assms(2,3) by (metis nth_mem subsetD)
  moreover have "map_of (zip ix vs) (ix ! k) = Some (Some v)"
    using reindex_lookup_nth[OF assms(1,2)] k assms(2) by simp
  ultimately show ?thesis
    by (force simp: reindex_column_def image_iff)
qed

lemma filter_eq_single: "distinct xs \<Longrightarrow> t \<in> set xs \<Longrightarrow> filter (\<lambda>x. x = t) xs = [t]"
  by (induction xs) (auto simp: filter_empty_conv)

lemma reindex_column_single:
  assumes "distinct ix" "length vs = length ix" "set ix \<subseteq> set new" "distinct new"
    and one: "filter (\<lambda>c. c \<noteq> None) vs = [Some v]"
  shows "filter (\<lambda>c. c \<noteq> None) (reindex_column ix new vs) = [Some v]"
proof -
  define f where "f t = (case map_of (zip ix vs) t of None \<Rightarrow> None | Some c \<Rightarrow> c)" for t
  from one obtain us ws where split: "vs = us @ Some v # ws"
    and us: "\<forall>u\<in>set us. \<not> u \<noteq> None" and ws0: "[] = filter (\<lambda>c. c \<noteq> None) ws"
    unfolding filter_eq_Cons_iff by blast
  from ws0 have ws: "\<forall>w\<in>set ws. w = None"
    by (metis (mono_tags, lifting) filter_empty_conv)
  define k where "k = length us"
  have k: "k < length ix" using split assms(2) by (simp add: k_def)
  have vk: "vs ! k = Some v" by (simp add: split k_def)
  have others: "vs ! j = None" if "j < length vs" "j \<noteq> k" for j
  proof (cases "j < k")
    case True
    then show ?thesis using us by (simp add: split k_def nth_append)
  next
    case False
    with that have "j > k" by simp
    then obtain m where m: "j = k + Suc m" by (metis less_imp_Suc_add add_Suc_right)
    with that(1) have "m < length ws" by (simp add: split k_def)
    then show ?thesis using ws m by (simp add: split k_def nth_append)
  qed
  have ft0: "f (ix ! k) = Some v"
    using reindex_lookup_nth[OF assms(1,2) k] vk by (simp add: f_def)
  have fother: "f t = None" if "t \<noteq> ix ! k" for t
  proof (cases "map_of (zip ix vs) t")
    case None then show ?thesis by (simp add: f_def)
  next
    case (Some c)
    then have "(t, c) \<in> set (zip ix vs)" by (rule map_of_SomeD)
    then obtain j where j: "j < length ix" "ix ! j = t" "vs ! j = c"
      using assms(2) by (auto simp: set_zip)
    with that have "j \<noteq> k" by auto
    with others j assms(2) have "c = None" by auto
    with Some show ?thesis by (simp add: f_def)
  qed
  have P: "(f t \<noteq> None) = (t = ix ! k)" for t
    using ft0 fother by (cases "t = ix ! k") auto
  have mem: "ix ! k \<in> set new" using k assms(3) by (metis nth_mem subsetD)
  have "filter (\<lambda>c. c \<noteq> None) (reindex_column ix new vs) = map f (filter (\<lambda>t. f t \<noteq> None) new)"
    by (simp add: reindex_column_def f_def filter_map comp_def)
  also have "filter (\<lambda>t. f t \<noteq> None) new = filter (\<lambda>t. t = ix ! k) new"
    by (rule filter_cong[OF refl]) (use P in blast)
  also have "\<dots> = [ix ! k]"
    by (rule filter_eq_single[OF assms(4) mem])
  finally show ?thesis by (simp add: ft0)
qed

lemma index_bounds:
  assumes "ix \<noteq> []"
  shows "set ix \<subseteq> set [index_min ix..index_max ix]"
proof -
  have "index_min ix = Min (set ix)" "index_max ix = Max (set ix)"
    using assms by (cases ix; simp add: index_min_def index_max_def Min.set_eq_fold[symmetric] Max.set_eq_fold[symmetric] del: set_simps)+
  then show ?thesis by auto
qed

lemma interpolate_and_process_result:
  assumes "\<not> pd_empty df" "distinct (pd_index df)"
  shows "interpolate_and_process df u =
           Inr \<lparr>pd_index = [index_min (pd_index df)..index_max (pd_index df)],
                pd_columns = map (\<lambda>(c, vs). (c, fill_column u c
                    (reindex_column (pd_index df) [index_min (pd_index df)..index_max (pd_index df)] vs)))
                  (pd_columns df)\<rparr>"
  using assms
  by (simp add: interpolate_and_process_def reindex_def date_range_def Let_def comp_def case_prod_beta)

lemma ffill_leading:
  "i < length xs \<Longrightarrow> (\<forall>j\<le>i. xs ! j = None) \<Longrightarrow> ffill xs ! i = None"
  by (simp add: ffill_def ffill_from_leading)


text \<open>
  C1. For a non-empty wide table (with the distinct dates of a pivot),
  \<open>interpolate_and_process\<close> returns a table whose date index has exactly
  \<open>(max_date - min_date).days + 1\<close> entries: every calendar day from the minimum to
  the maximum observed date, each once, consecutive entries one day apart; every
  column has one cell per index entry.
\<close>

theorem C1_daily_index:
  assumes "\<not> pd_empty df_wide" and "distinct (pd_index df_wide)"
  shows "\<exists>df. interpolate_and_process df_wide usrec_symbol = Inr df \<and>
           int (length (pd_index df)) = Max (set (pd_index df_wide)) - Min (set (pd_index df_wide)) + 1 \<and>
           distinct (pd_index df) \<and>
           set (pd_index df) = {Min (set (pd_index df_wide))..Max (set (pd_index df_wide))} \<and>
           (\<forall>i. Suc i < length (pd_index df) \<longrightarrow> pd_index df ! Suc i = pd_index df ! i + 1) \<and>
           (\<forall>(c, vs) \<in> set (pd_columns df). length vs = length (pd_index df))"
proof -
  let ?ix = "pd_index df_wide"
  from assms(1) have ne: "?ix \<noteq> []" by (simp add: pd_empty_def)
  have mm: "index_min ?ix = Min (set ?ix)" "index_max ?ix = Max (set ?ix)"
    using ne by (simp_all add: index_min_Min index_max_Max)
  have le: "Min (set ?ix) \<le> Max (set ?ix)" using ne by simp
  note res = interpolate_and_process_result[OF assms, of usrec_symbol, unfolded mm]
  show ?thesis
    unfolding res using le by (auto simp: nth_upto)
qed


theorem C1_daily_index_witness:
  "\<not> pd_empty example_wide \<and>
   distinct (pd_index example_wide) \<and>
   (\<exists>df. interpolate_and_process example_wide ''USREC'' = Inr df \<and>
      length (pd_index df) = 6 \<and> distinct (pd_index df) \<and> set (pd_index df) = {10..15})"
  using C1_daily_index[of example_wide "''USREC''"]
  by (simp add: pd_empty_def example_wide_def) blast


text \<open>What the two fills do, by position and then by day.\<close>

lemma ffill_from_gap:
  "i < length xs \<Longrightarrow> (\<forall>k\<le>i. xs ! k = None) \<Longrightarrow> ffill_from p xs ! i = p"
proof (induction xs arbitrary: i)
  case Nil then show ?case by simp
next
  case (Cons x xs)
  from Cons.prems(2) have x: "x = None" by (metis le0 nth_Cons_0)
  show ?case
  proof (cases i)
    case 0 then show ?thesis using x by simp
  next
    case (Suc m)
    have "\<forall>k\<le>m. xs ! k = None" using Cons.prems(2) Suc by (metis Suc_le_mono nth_Cons_Suc)
    then show ?thesis using Cons.IH[of m] Cons.prems(1) Suc x by simp
  qed
qed

lemma ffill_from_last:
  "j \<le> i \<Longrightarrow> i < length xs \<Longrightarrow> xs ! j = Some v \<Longrightarrow> (\<forall>k. j < k \<and> k \<le> i \<longrightarrow> xs ! k = None)
     \<Longrightarrow> ffill_from p xs ! i = Some v"
proof (induction p xs arbitrary: i j rule: ffill_from.induct)
  case (1 prev)
  then show ?case by simp
next
  case (2 prev xs)
  from "2.prems"(3) obtain j' where j: "j = Suc j'" by (cases j) auto
  with "2.prems" obtain i' where i: "i = Suc i'" by (cases i) auto
  have "ffill_from prev xs ! i' = Some v"
  proof (rule "2.IH"[of j' i'])
    show "j' \<le> i'" using "2.prems"(1) i j by simp
    show "i' < length xs" using "2.prems"(2) i by simp
    show "xs ! j' = Some v" using "2.prems"(3) j by simp
    show "\<forall>k. j' < k \<and> k \<le> i' \<longrightarrow> xs ! k = None"
    proof (intro allI impI)
      fix k assume "j' < k \<and> k \<le> i'"
      then have "j < Suc k \<and> Suc k \<le> i" using i j by simp
      with "2.prems"(4) have "(None # xs) ! Suc k = None" by blast
      then show "xs ! k = None" by simp
    qed
  qed
  then show ?case by (simp add: i)
next
  case (3 prev w xs)
  show ?case
  proof (cases i)
    case 0
    with "3.prems" have "j = 0" by simp
    with "3.prems" 0 show ?thesis by simp
  next
    case (Suc i')
    show ?thesis
    proof (cases j)
      case 0
      have allnone: "\<forall>k\<le>i'. xs ! k = None"
      proof (intro allI impI)
        fix k assume "k \<le> i'"
        then have "j < Suc k \<and> Suc k \<le> i" using 0 Suc by simp
        with "3.prems"(4) have "(Some w # xs) ! Suc k = None" by blast
        then show "xs ! k = None" by simp
      qed
      have w: "w = v" using "3.prems"(3) 0 by simp
      have "ffill_from (Some w) xs ! i' = Some w"
        using ffill_from_gap[of i' xs "Some w"] allnone "3.prems"(2) Suc by simp
      then show ?thesis using Suc w by simp
    next
      case (Suc j')
      have "ffill_from (Some w) xs ! i' = Some v"
      proof (rule "3.IH"[of j' i'])
        show "j' \<le> i'" using "3.prems"(1) Suc \<open>i = Suc i'\<close> by simp
        show "i' < length xs" using "3.prems"(2) \<open>i = Suc i'\<close> by simp
        show "xs ! j' = Some v" using "3.prems"(3) Suc by simp
        show "\<forall>k. j' < k \<and> k \<le> i' \<longrightarrow> xs ! k = None"
        proof (intro allI impI)
          fix k assume "j' < k \<and> k \<le> i'"
          then have "j < Suc k \<and> Suc k \<le> i" using Suc \<open>i = Suc i'\<close> by simp
          with "3.prems"(4) have "(Some w # xs) ! Suc k = None" by blast
          then show "xs ! k = None" by simp
        qed
      qed
      then show ?thesis using \<open>i = Suc i'\<close> by simp
    qed
  qed
qed

lemma valid_points_append:
  "valid_points i (xs @ zs) = valid_points i xs @ valid_points (i + length xs) zs"
  by (induction i xs rule: valid_points.induct) simp_all

lemma valid_points_fst:
  "p \<in> set (valid_points i xs) \<Longrightarrow> i \<le> fst p \<and> fst p < i + length xs"
proof (induction i xs rule: valid_points.induct)
  case (1 i)
  then show ?case by simp
next
  case (2 i ys)
  then have "Suc i \<le> fst p \<and> fst p < Suc i + length ys" by simp
  then show ?case by simp
next
  case (3 i v ys)
  show ?case
  proof (cases "p = (i, v)")
    case True then show ?thesis by simp
  next
    case False
    with "3.prems" have "p \<in> set (valid_points (Suc i) ys)" by simp
    then have "Suc i \<le> fst p \<and> fst p < Suc i + length ys" by (rule "3.IH")
    then show ?thesis by simp
  qed
qed

lemma valid_points_take_below:
  assumes "a \<le> length ys" "a \<le> e"
  shows "\<forall>p\<in>set (valid_points 0 (take a ys)). fst p < e \<or> a = e \<and> fst p < a"
proof
  fix p assume "p \<in> set (valid_points 0 (take a ys))"
  from valid_points_fst[OF this] have "fst p < length (take a ys)" by simp
  then have "fst p < a" using assms(1) by simp
  then show "fst p < e \<or> a = e \<and> fst p < a" using assms(2) by simp
qed

lemma np_interp_skip:
  "(\<forall>p\<in>set pre. fst p < x) \<Longrightarrow> fst q < x \<Longrightarrow>
     np_interp x (pre @ q # rest) = np_interp x (q # rest)"
proof (induction pre)
  case Nil
  then show ?case by simp
next
  case (Cons p pre)
  obtain x0 y0 where p: "p = (x0, y0)" by (cases p)
  have lt: "x0 < x" using Cons.prems(1) p by simp
  obtain x1 y1 tl where nxt: "pre @ q # rest = (x1, y1) # tl" and x1: "x1 < x"
  proof (cases pre)
    case Nil
    obtain a b where "q = (a, b)" by (cases q)
    with Nil Cons.prems(2) that show ?thesis by auto
  next
    case (Cons r rs)
    obtain a b where "r = (a, b)" by (cases r)
    with Cons Cons.prems(1) that show ?thesis by auto
  qed
  have "np_interp x ((p # pre) @ q # rest) = np_interp x ((x0, y0) # (x1, y1) # tl)"
    by (simp add: p nxt)
  also have "\<dots> = np_interp x ((x1, y1) # tl)" using lt x1 by simp
  also have "\<dots> = np_interp x (pre @ q # rest)" by (simp add: nxt)
  also have "\<dots> = np_interp x (q # rest)" using Cons.IH Cons.prems by simp
  finally show ?case .
qed

lemma np_interp_first: "x \<le> a \<Longrightarrow> np_interp x ((a, ya) # rest) = Some ya"
  by (cases rest) auto

lemma list_split_two:
  assumes "a < b" "b < length ys"
  shows "ys = take a ys @ ys ! a # take (b - Suc a) (drop (Suc a) ys) @ ys ! b # drop (Suc b) ys"
proof -
  have a': "a < length ys" using assms by simp
  have 1: "take a ys @ ys ! a # drop (Suc a) ys = ys"
    by (rule id_take_nth_drop[OF a', symmetric])
  let ?d = "drop (Suc a) ys"
  have b': "b - Suc a < length ?d" using assms by simp
  have 2: "take (b - Suc a) ?d @ ?d ! (b - Suc a) # drop (Suc (b - Suc a)) ?d = ?d"
    by (rule id_take_nth_drop[OF b', symmetric])
  have 3: "?d ! (b - Suc a) = ys ! b" using assms by simp
  have 4: "drop (Suc (b - Suc a)) ?d = drop (Suc b) ys" using assms by simp
  have "take a ys @ ys ! a # take (b - Suc a) ?d @ ys ! b # drop (Suc b) ys
          = take a ys @ ys ! a # ?d"
    using 2 unfolding 3 4 by (rule arg_cong)
  then show ?thesis unfolding 1 by (rule sym)
qed

lemma all_none_between:
  assumes "a < b" "b < length ys" "\<forall>k. a < k \<and> k < b \<longrightarrow> ys ! k = None"
  shows "\<forall>c\<in>set (take (b - Suc a) (drop (Suc a) ys)). c = None"
proof
  fix c assume "c \<in> set (take (b - Suc a) (drop (Suc a) ys))"
  then obtain i where i: "i < length (take (b - Suc a) (drop (Suc a) ys))"
    and c: "c = take (b - Suc a) (drop (Suc a) ys) ! i"
    unfolding in_set_conv_nth by blast
  from i have i': "i < b - Suc a" by simp
  have "take (b - Suc a) (drop (Suc a) ys) ! i = drop (Suc a) ys ! i"
    using i' by simp
  also have "\<dots> = ys ! (Suc a + i)"
    using assms(1,2) i' by (intro nth_drop) simp
  finally have e: "c = ys ! (Suc a + i)" using c by simp
  have r: "a < Suc a + i \<and> Suc a + i < b" using i' by simp
  have "ys ! (Suc a + i) = None" by (rule assms(3)[rule_format, OF r])
  with e show "c = None" by simp
qed

lemma valid_points_two_lists:
  assumes "\<forall>c\<in>set mid. c = None"
  shows "valid_points 0 (us @ Some ya # mid @ Some yb # ws)
           = valid_points 0 us @ (length us, ya) # (Suc (length us + length mid), yb)
               # valid_points (Suc (Suc (length us + length mid))) ws"
proof -
  have mid: "valid_points i mid = []" for i
    using assms by (simp add: valid_points_empty_iff)
  show ?thesis by (simp add: valid_points_append mid)
qed

lemma valid_points_two:
  assumes "a < b" "b < length ys" "ys ! a = Some ya" "ys ! b = Some yb"
    "\<forall>k. a < k \<and> k < b \<longrightarrow> ys ! k = None"
  shows "valid_points 0 ys
           = valid_points 0 (take a ys) @ (a, ya) # (b, yb) # valid_points (Suc b) (drop (Suc b) ys)"
proof -
  let ?mid = "take (b - Suc a) (drop (Suc a) ys)"
  have lm: "length ?mid = b - Suc a" using assms(1,2) by simp
  have la: "length (take a ys) = a" using assms(1,2) by simp
  have sum: "Suc (a + (b - Suc a)) = b" using assms(1) by simp
  have "valid_points 0 (take a ys @ Some ya # ?mid @ Some yb # drop (Suc b) ys)
          = valid_points 0 (take a ys) @ (a, ya) # (b, yb) # valid_points (Suc b) (drop (Suc b) ys)"
    unfolding valid_points_two_lists[OF all_none_between[OF assms(1,2,5)]] la lm sum ..
  moreover have "take a ys @ Some ya # ?mid @ Some yb # drop (Suc b) ys = ys"
    using list_split_two[OF assms(1,2)] unfolding assms(3,4) by (rule sym)
  ultimately show ?thesis by simp
qed

lemma valid_points_one:
  assumes "a < length ys" "ys ! a = Some ya"
  shows "valid_points 0 ys
           = valid_points 0 (take a ys) @ (a, ya) # valid_points (Suc a) (drop (Suc a) ys)"
proof -
  have "valid_points 0 ys = valid_points 0 (take a ys @ Some ya # drop (Suc a) ys)"
    using id_take_nth_drop[OF assms(1)] assms(2) by simp
  also have "\<dots> = valid_points 0 (take a ys) @ (a, ya) # valid_points (Suc a) (drop (Suc a) ys)"
    using assms(1) by (simp add: valid_points_append)
  finally show ?thesis .
qed

lemma interpolate_linear_both_nth:
  assumes "valid_points 0 ys \<noteq> []" "e < length ys"
  shows "interpolate_linear_both ys ! e
           = (case ys ! e of Some v \<Rightarrow> Some v | None \<Rightarrow> np_interp e (valid_points 0 ys))"
  using assms by (simp add: interpolate_linear_both_def Let_def)

lemma interpolate_linear_both_keeps:
  assumes "e < length ys" "ys ! e = Some v"
  shows "interpolate_linear_both ys ! e = Some v"
proof -
  have "Some v \<in> set ys" using assms by (metis nth_mem)
  then have "valid_points 0 ys \<noteq> []" by (auto simp: valid_points_empty_iff)
  then show ?thesis using interpolate_linear_both_nth[OF _ assms(1)] assms(2) by simp
qed

lemma interpolate_linear_both_between:
  assumes "a < b" "b < length ys" "ys ! a = Some ya" "ys ! b = Some yb"
    "\<forall>k. a < k \<and> k < b \<longrightarrow> ys ! k = None" "a \<le> e" "e \<le> b"
  shows "interpolate_linear_both ys ! e
           = Some (ya + (yb - ya) / (of_nat b - of_nat a) * (of_nat e - of_nat a))"
proof -
  consider "e = a" | "e = b" | "a < e" "e < b" using assms(6,7) by linarith
  then show ?thesis
  proof cases
    case 1
    then show ?thesis using interpolate_linear_both_keeps[of a ys ya] assms by simp
  next
    case 2
    have "of_nat b - of_nat a \<noteq> (0::rat)" using assms(1) by simp
    then show ?thesis using 2 interpolate_linear_both_keeps[of b ys yb] assms by simp
  next
    case 3
    have vp: "valid_points 0 ys
           = valid_points 0 (take a ys) @ (a, ya) # (b, yb) # valid_points (Suc b) (drop (Suc b) ys)"
      by (rule valid_points_two[OF assms(1-5)])
    have pre: "\<forall>p\<in>set (valid_points 0 (take a ys)). fst p < e"
      using valid_points_take_below[of a ys e] assms(1,2) 3 by auto
    have "np_interp e (valid_points 0 ys)
            = np_interp e ((a, ya) # (b, yb) # valid_points (Suc b) (drop (Suc b) ys))"
      unfolding vp using np_interp_skip[OF pre, of "(a, ya)"] 3 by simp
    also have "\<dots> = Some (ya + (yb - ya) / (of_nat b - of_nat a) * (of_nat e - of_nat a))"
      using 3 by simp
    finally have np: "np_interp e (valid_points 0 ys)
            = Some (ya + (yb - ya) / (of_nat b - of_nat a) * (of_nat e - of_nat a))" .
    have en: "ys ! e = None" using assms(5) 3 by blast
    have "valid_points 0 ys \<noteq> []" by (simp add: vp)
    from interpolate_linear_both_nth[OF this, of e] assms(2) 3 en np
    show ?thesis by simp
  qed
qed

lemma interpolate_linear_both_leading:
  assumes "a < length ys" "ys ! a = Some ya" "\<forall>k<a. ys ! k = None" "e \<le> a"
  shows "interpolate_linear_both ys ! e = Some ya"
proof (cases "e = a")
  case True
  then show ?thesis using interpolate_linear_both_keeps[of a ys ya] assms by simp
next
  case False
  then have lt: "e < a" using assms(4) by simp
  have "\<forall>c\<in>set (take a ys). c = None"
    using assms(1,3) by (auto simp: in_set_conv_nth)
  then have "valid_points 0 (take a ys) = []" by (simp add: valid_points_empty_iff)
  then have vp: "valid_points 0 ys = (a, ya) # valid_points (Suc a) (drop (Suc a) ys)"
    using valid_points_one[OF assms(1,2)] by simp
  have np: "np_interp e (valid_points 0 ys) = Some ya"
    unfolding vp using lt by (intro np_interp_first) simp
  have en: "ys ! e = None" using assms(3) lt by blast
  have "valid_points 0 ys \<noteq> []" by (simp add: vp)
  from interpolate_linear_both_nth[OF this, of e] assms(1) lt en np
  show ?thesis by simp
qed

lemma interpolate_linear_both_trailing:
  assumes "b < length ys" "ys ! b = Some yb" "\<forall>k. b < k \<and> k < length ys \<longrightarrow> ys ! k = None"
    "b \<le> e" "e < length ys"
  shows "interpolate_linear_both ys ! e = Some yb"
proof (cases "e = b")
  case True
  then show ?thesis using interpolate_linear_both_keeps[of b ys yb] assms by simp
next
  case False
  then have lt: "b < e" using assms(4) by simp
  have "\<forall>c\<in>set (drop (Suc b) ys). c = None"
    using assms(1,3) by (auto simp: in_set_conv_nth)
  then have "valid_points (Suc b) (drop (Suc b) ys) = []" by (simp add: valid_points_empty_iff)
  then have vp: "valid_points 0 ys = valid_points 0 (take b ys) @ [(b, yb)]"
    using valid_points_one[OF assms(1,2)] by simp
  have pre: "\<forall>p\<in>set (valid_points 0 (take b ys)). fst p < e"
    using valid_points_take_below[of b ys e] assms(1) lt by auto
  have np: "np_interp e (valid_points 0 ys) = Some yb"
    unfolding vp using np_interp_skip[OF pre, of "(b, yb)" "[]"] lt by simp
  have en: "ys ! e = None" using assms(3,5) lt by blast
  have "valid_points 0 ys \<noteq> []" by (simp add: vp)
  from interpolate_linear_both_nth[OF this assms(5)] en np
  show ?thesis by simp
qed

lemma interpolate_linear_both_none:
  "(\<forall>c\<in>set ys. c = None) \<Longrightarrow> interpolate_linear_both ys = ys"
  by (simp add: interpolate_linear_both_def Let_def valid_points_empty_iff)

lemma reindex_column_nth:
  assumes "mn \<le> d" "d \<le> mx"
  shows "reindex_column ix [mn..mx] vs ! nat (d - mn)
           = (case map_of (zip ix vs) d of None \<Rightarrow> None | Some c \<Rightarrow> c)"
proof -
  have "nat (d - mn) < length [mn..mx]" using assms by simp
  moreover have "[mn..mx] ! nat (d - mn) = d" using assms by (simp add: nth_upto)
  ultimately show ?thesis by (simp add: reindex_column_def)
qed

lemma cell_observed:
  assumes "distinct ix" "length vs = length ix" "observed ix vs d v"
  shows "(case map_of (zip ix vs) d of None \<Rightarrow> None | Some c \<Rightarrow> c) = Some v"
proof -
  from assms(3) obtain k where k: "k < length ix" "ix ! k = d" "vs ! k = Some v" by blast
  from reindex_lookup_nth[OF assms(1,2) k(1)] k(2,3) show ?thesis by simp
qed

lemma cell_unobserved:
  assumes "length vs = length ix" "unobserved ix vs d"
  shows "(case map_of (zip ix vs) d of None \<Rightarrow> None | Some c \<Rightarrow> c) = None"
proof (cases "map_of (zip ix vs) d")
  case None then show ?thesis by simp
next
  case (Some c)
  then have "(d, c) \<in> set (zip ix vs)" by (rule map_of_SomeD)
  then obtain j where j: "j < length ix" "ix ! j = d" "vs ! j = c"
    using assms(1) by (auto simp: set_zip)
  with assms(2) have "c = None" by auto
  with Some show ?thesis by simp
qed

lemma observed_in_range:
  assumes "ix \<noteq> []" "observed ix vs d v"
  shows "Min (set ix) \<le> d \<and> d \<le> Max (set ix)"
proof -
  from assms(2) have "d \<in> set ix" by (metis nth_mem)
  then show ?thesis by simp
qed

lemma reindexed_position:
  assumes "int p \<le> mx - mn"
  shows "reindex_column ix [mn..mx] vs ! p
           = (case map_of (zip ix vs) (mn + int p) of None \<Rightarrow> None | Some c \<Rightarrow> c)"
  using reindex_column_nth[of mn "mn + int p" mx ix vs] assms by simp

lemma reindexed_observed:
  assumes "distinct ix" "length vs = length ix" "ix \<noteq> []"
    "mn = Min (set ix)" "mx = Max (set ix)" "observed ix vs d v"
  shows "reindex_column ix [mn..mx] vs ! nat (d - mn) = Some v \<and> mn \<le> d \<and> d \<le> mx"
proof -
  have rng: "mn \<le> d \<and> d \<le> mx" using observed_in_range[OF assms(3,6)] assms(4,5) by simp
  then show ?thesis
    using reindex_column_nth[of mn d mx ix vs] cell_observed[OF assms(1,2,6)] by simp
qed

lemma reindexed_unobserved:
  assumes "length vs = length ix" "int p \<le> mx - mn" "unobserved ix vs (mn + int p)"
  shows "reindex_column ix [mn..mx] vs ! p = None"
  using reindexed_position[OF assms(2), of ix vs] cell_unobserved[OF assms(1,3)] by simp

lemma ffill_days_last:
  assumes "distinct ix" "length vs = length ix" "ix \<noteq> []"
    "mn = Min (set ix)" "mx = Max (set ix)"
    "observed ix vs d v" "d \<le> e" "e \<le> mx" "\<forall>t. d < t \<and> t \<le> e \<longrightarrow> unobserved ix vs t"
  shows "ffill (reindex_column ix [mn..mx] vs) ! nat (e - mn) = Some v"
proof -
  let ?r = "reindex_column ix [mn..mx] vs"
  from reindexed_observed[OF assms(1-6)]
  have rd: "?r ! nat (d - mn) = Some v" and d: "mn \<le> d" "d \<le> mx" by simp_all
  have le: "nat (d - mn) \<le> nat (e - mn)" using assms(7) by simp
  have lt: "nat (e - mn) < length ?r" using assms(7,8) d by simp
  have gap: "\<forall>k. nat (d - mn) < k \<and> k \<le> nat (e - mn) \<longrightarrow> ?r ! k = None"
  proof (intro allI impI)
    fix k assume k: "nat (d - mn) < k \<and> k \<le> nat (e - mn)"
    then have t: "d < mn + int k \<and> mn + int k \<le> e" using d by linarith
    have "unobserved ix vs (mn + int k)" by (rule assms(9)[THEN spec, THEN mp, OF t])
    moreover have "int k \<le> mx - mn" using t assms(8) by linarith
    ultimately show "?r ! k = None" using reindexed_unobserved[OF assms(2)] by blast
  qed
  show ?thesis unfolding ffill_def by (rule ffill_from_last[OF le lt rd gap])
qed

lemma ffill_days_none:
  assumes "length vs = length ix" "mn \<le> e" "e \<le> mx" "\<forall>t. t \<le> e \<longrightarrow> unobserved ix vs t"
  shows "ffill (reindex_column ix [mn..mx] vs) ! nat (e - mn) = None"
proof -
  let ?r = "reindex_column ix [mn..mx] vs"
  have lt: "nat (e - mn) < length ?r" using assms(2,3) by simp
  have gap: "\<forall>k\<le>nat (e - mn). ?r ! k = None"
  proof (intro allI impI)
    fix k assume k: "k \<le> nat (e - mn)"
    then have t: "mn + int k \<le> e" using assms(2) by linarith
    have "unobserved ix vs (mn + int k)" by (rule assms(4)[THEN spec, THEN mp, OF t])
    moreover have "int k \<le> mx - mn" using t assms(3) by linarith
    ultimately show "?r ! k = None" using reindexed_unobserved[OF assms(1)] by blast
  qed
  show ?thesis unfolding ffill_def by (rule ffill_from_gap[OF lt gap])
qed

lemma interp_days_between:
  assumes "distinct ix" "length vs = length ix" "ix \<noteq> []"
    "mn = Min (set ix)" "mx = Max (set ix)"
    "observed ix vs a ya" "observed ix vs b yb" "a < b"
    "\<forall>t. a < t \<and> t < b \<longrightarrow> unobserved ix vs t" "a \<le> e" "e \<le> b"
  shows "interpolate_linear_both (reindex_column ix [mn..mx] vs) ! nat (e - mn)
           = Some (ya + (yb - ya) * of_int (e - a) / of_int (b - a))"
proof -
  let ?r = "reindex_column ix [mn..mx] vs"
  let ?a = "nat (a - mn)" and ?b = "nat (b - mn)" and ?e = "nat (e - mn)"
  from reindexed_observed[OF assms(1-5) assms(6)]
  have ra: "?r ! ?a = Some ya" and a: "mn \<le> a" "a \<le> mx" by simp_all
  from reindexed_observed[OF assms(1-5) assms(7)]
  have rb: "?r ! ?b = Some yb" and b: "mn \<le> b" "b \<le> mx" by simp_all
  have ab: "?a < ?b" using assms(8) a by linarith
  have bl: "?b < length ?r" using b by simp
  have gap: "\<forall>k. ?a < k \<and> k < ?b \<longrightarrow> ?r ! k = None"
  proof (intro allI impI)
    fix k assume k: "?a < k \<and> k < ?b"
    then have t: "a < mn + int k \<and> mn + int k < b" using a b by linarith
    have "unobserved ix vs (mn + int k)" by (rule assms(9)[THEN spec, THEN mp, OF t])
    moreover have "int k \<le> mx - mn" using t b by linarith
    ultimately show "?r ! k = None" using reindexed_unobserved[OF assms(2)] by blast
  qed
  have ae: "?a \<le> ?e" using assms(10) by simp
  have eb: "?e \<le> ?b" using assms(11) by simp
  have n1: "(of_nat ?b :: rat) - of_nat ?a = of_int (b - a)"
  proof -
    have "(of_nat ?b :: rat) = of_int (b - mn)" "(of_nat ?a :: rat) = of_int (a - mn)"
      using a b by simp_all
    then show ?thesis by simp
  qed
  have n2: "(of_nat ?e :: rat) - of_nat ?a = of_int (e - a)"
  proof -
    have "(of_nat ?e :: rat) = of_int (e - mn)" "(of_nat ?a :: rat) = of_int (a - mn)"
      using a assms(10) by simp_all
    then show ?thesis by simp
  qed
  from interpolate_linear_both_between[OF ab bl ra rb gap ae eb]
  show ?thesis unfolding n1 n2 by simp
qed

lemma interp_days_leading:
  assumes "distinct ix" "length vs = length ix" "ix \<noteq> []"
    "mn = Min (set ix)" "mx = Max (set ix)"
    "observed ix vs a ya" "\<forall>t. t < a \<longrightarrow> unobserved ix vs t" "mn \<le> e" "e \<le> a"
  shows "interpolate_linear_both (reindex_column ix [mn..mx] vs) ! nat (e - mn) = Some ya"
proof -
  let ?r = "reindex_column ix [mn..mx] vs"
  let ?a = "nat (a - mn)" and ?e = "nat (e - mn)"
  from reindexed_observed[OF assms(1-5) assms(6)]
  have ra: "?r ! ?a = Some ya" and a: "mn \<le> a" "a \<le> mx" by simp_all
  have al: "?a < length ?r" using a by simp
  have gap: "\<forall>k<?a. ?r ! k = None"
  proof (intro allI impI)
    fix k assume k: "k < ?a"
    then have t: "mn + int k < a" using a by linarith
    have "unobserved ix vs (mn + int k)" by (rule assms(7)[THEN spec, THEN mp, OF t])
    moreover have "int k \<le> mx - mn" using t a by linarith
    ultimately show "?r ! k = None" using reindexed_unobserved[OF assms(2)] by blast
  qed
  have ea: "?e \<le> ?a" using assms(9) by simp
  show ?thesis by (rule interpolate_linear_both_leading[OF al ra gap ea])
qed

lemma interp_days_trailing:
  assumes "distinct ix" "length vs = length ix" "ix \<noteq> []"
    "mn = Min (set ix)" "mx = Max (set ix)"
    "observed ix vs b yb" "\<forall>t. b < t \<longrightarrow> unobserved ix vs t" "b \<le> e" "e \<le> mx"
  shows "interpolate_linear_both (reindex_column ix [mn..mx] vs) ! nat (e - mn) = Some yb"
proof -
  let ?r = "reindex_column ix [mn..mx] vs"
  let ?b = "nat (b - mn)" and ?e = "nat (e - mn)"
  from reindexed_observed[OF assms(1-5) assms(6)]
  have rb: "?r ! ?b = Some yb" and b: "mn \<le> b" "b \<le> mx" by simp_all
  have bl: "?b < length ?r" using b by simp
  have gap: "\<forall>k. ?b < k \<and> k < length ?r \<longrightarrow> ?r ! k = None"
  proof (intro allI impI)
    fix k assume k: "?b < k \<and> k < length ?r"
    then have t: "b < mn + int k" using b by linarith
    have "unobserved ix vs (mn + int k)" by (rule assms(7)[THEN spec, THEN mp, OF t])
    moreover have "int k \<le> mx - mn"
    proof -
      from k have "k < nat (mx - mn + 1)" by simp
      then show ?thesis by linarith
    qed
    ultimately show "?r ! k = None" using reindexed_unobserved[OF assms(2)] by blast
  qed
  have be: "?b \<le> ?e" using assms(8) by simp
  have el: "?e < length ?r" using assms(8,9) b by simp
  show ?thesis by (rule interpolate_linear_both_trailing[OF bl rb gap be el])
qed

lemma interp_days_none:
  assumes "length vs = length ix" "\<forall>t. unobserved ix vs t"
  shows "interpolate_linear_both (reindex_column ix [mn..mx] vs)
           = replicate (length [mn..mx]) None"
proof -
  let ?r = "reindex_column ix [mn..mx] vs"
  have cells: "?r ! k = None" if "k < length ?r" for k
  proof -
    from that have "k < nat (mx - mn + 1)" by simp
    then have "int k \<le> mx - mn" by linarith
    then show ?thesis using reindexed_unobserved[OF assms(1)] assms(2) by blast
  qed
  have r: "?r = replicate (length [mn..mx]) None"
    by (rule nth_equalityI) (simp_all add: cells)
  have "\<forall>c\<in>set ?r. c = None"
    using cells by (auto simp: in_set_conv_nth)
  from interpolate_linear_both_none[OF this] r show ?thesis by simp
qed

text \<open>
  C6. In the fill step the regime column is forward-filled and nothing else: on each
  day of the daily index it holds the latest observation on or before that day, and
  null on the days before its first observation. Every other column is linearly
  interpolated with both-direction boundary fill: between two consecutive
  observations \<open>ya\<close> on day \<open>a\<close> and \<open>yb\<close> on day \<open>b\<close> it holds
  \<open>ya + (yb - ya) * (e - a) / (b - a)\<close> on day \<open>e\<close>, before the first observation the
  first observation, after the last observation the last one. So a column with at
  least one observation has no null left, a column with exactly one observation is
  constant at that value on every row, and a column with none stays null.
\<close>

theorem C6_fill_policy:
  assumes "\<not> pd_empty df_wide" and "distinct (pd_index df_wide)"
    and "k < length (pd_columns df_wide)" and "pd_columns df_wide ! k = (c, vs)"
    and "length vs = length (pd_index df_wide)"
    and "ix = pd_index df_wide" and "mn = Min (set ix)" and "mx = Max (set ix)"
  shows "\<exists>df out. interpolate_and_process df_wide usrec_symbol = Inr df \<and>
           pd_index df = [mn..mx] \<and>
           length (pd_columns df) = length (pd_columns df_wide) \<and>
           pd_columns df ! k = (c, out) \<and> length out = length (pd_index df) \<and>
           (c = usrec_symbol \<longrightarrow>
              (\<forall>d v e. observed ix vs d v \<and> d \<le> e \<and> e \<le> mx \<and>
                       (\<forall>t. d < t \<and> t \<le> e \<longrightarrow> unobserved ix vs t)
                  \<longrightarrow> out ! nat (e - mn) = Some v) \<and>
              (\<forall>e. mn \<le> e \<and> e \<le> mx \<and> (\<forall>t. t \<le> e \<longrightarrow> unobserved ix vs t)
                  \<longrightarrow> out ! nat (e - mn) = None)) \<and>
           (c \<noteq> usrec_symbol \<longrightarrow>
              (\<forall>a ya b yb e. observed ix vs a ya \<and> observed ix vs b yb \<and> a < b \<and>
                       (\<forall>t. a < t \<and> t < b \<longrightarrow> unobserved ix vs t) \<and> a \<le> e \<and> e \<le> b
                  \<longrightarrow> out ! nat (e - mn) = Some (ya + (yb - ya) * of_int (e - a) / of_int (b - a))) \<and>
              (\<forall>a ya e. observed ix vs a ya \<and> (\<forall>t. t < a \<longrightarrow> unobserved ix vs t) \<and>
                       mn \<le> e \<and> e \<le> a
                  \<longrightarrow> out ! nat (e - mn) = Some ya) \<and>
              (\<forall>b yb e. observed ix vs b yb \<and> (\<forall>t. b < t \<longrightarrow> unobserved ix vs t) \<and>
                       b \<le> e \<and> e \<le> mx
                  \<longrightarrow> out ! nat (e - mn) = Some yb) \<and>
              ((\<forall>t. unobserved ix vs t) \<longrightarrow> out = replicate (length (pd_index df)) None) \<and>
              ((\<exists>v. Some v \<in> set vs) \<longrightarrow> None \<notin> set out) \<and>
              (\<forall>v. filter (\<lambda>x. x \<noteq> None) vs = [Some v] \<longrightarrow>
                   out = replicate (length (pd_index df)) (Some v)))"
proof -
  let ?new = "[mn..mx]"
  let ?r = "reindex_column ix ?new vs"
  let ?df = "\<lparr>pd_index = ?new,
               pd_columns = map (\<lambda>(c, vs). (c, fill_column usrec_symbol c (reindex_column ix ?new vs)))
                  (pd_columns df_wide)\<rparr>"
  from assms(1) have ne: "ix \<noteq> []" by (simp add: pd_empty_def assms(6))
  have dist: "distinct ix" using assms(2,6) by simp
  have len: "length vs = length ix" using assms(5,6) by simp
  have mm: "index_min ix = mn" "index_max ix = mx"
    using ne by (simp_all add: index_min_Min index_max_Max assms(7,8))
  have sub: "set ix \<subseteq> set ?new" using index_bounds[OF ne] by (simp add: mm)
  have dn: "distinct ?new" by simp
  have res: "interpolate_and_process df_wide usrec_symbol = Inr ?df"
    using interpolate_and_process_result[OF assms(1,2), of usrec_symbol]
    by (simp add: assms(6)[symmetric] mm)
  have col: "pd_columns ?df ! k = (c, fill_column usrec_symbol c ?r)"
    using assms(3,4) by simp
  have A: "c = usrec_symbol \<Longrightarrow> fill_column usrec_symbol c ?r = ffill ?r"
    by (simp add: fill_column_def)
  have B: "c \<noteq> usrec_symbol \<Longrightarrow> fill_column usrec_symbol c ?r = interpolate_linear_both ?r"
    by (simp add: fill_column_def)
  have F1: "\<forall>d v e. observed ix vs d v \<and> d \<le> e \<and> e \<le> mx \<and>
                       (\<forall>t. d < t \<and> t \<le> e \<longrightarrow> unobserved ix vs t)
                  \<longrightarrow> ffill ?r ! nat (e - mn) = Some v"
    using ffill_days_last[OF dist len ne assms(7,8)] by blast
  have F2: "\<forall>e. mn \<le> e \<and> e \<le> mx \<and> (\<forall>t. t \<le> e \<longrightarrow> unobserved ix vs t)
                  \<longrightarrow> ffill ?r ! nat (e - mn) = None"
    using ffill_days_none[OF len] by blast
  have L1: "\<forall>a ya b yb e. observed ix vs a ya \<and> observed ix vs b yb \<and> a < b \<and>
                       (\<forall>t. a < t \<and> t < b \<longrightarrow> unobserved ix vs t) \<and> a \<le> e \<and> e \<le> b
                  \<longrightarrow> interpolate_linear_both ?r ! nat (e - mn)
                        = Some (ya + (yb - ya) * of_int (e - a) / of_int (b - a))"
    using interp_days_between[OF dist len ne assms(7,8)] by blast
  have L2: "\<forall>a ya e. observed ix vs a ya \<and> (\<forall>t. t < a \<longrightarrow> unobserved ix vs t) \<and>
                       mn \<le> e \<and> e \<le> a
                  \<longrightarrow> interpolate_linear_both ?r ! nat (e - mn) = Some ya"
    using interp_days_leading[OF dist len ne assms(7,8)] by blast
  have L3: "\<forall>b yb e. observed ix vs b yb \<and> (\<forall>t. b < t \<longrightarrow> unobserved ix vs t) \<and>
                       b \<le> e \<and> e \<le> mx
                  \<longrightarrow> interpolate_linear_both ?r ! nat (e - mn) = Some yb"
    using interp_days_trailing[OF dist len ne assms(7,8)] by blast
  have L0: "(\<forall>t. unobserved ix vs t) \<longrightarrow>
              interpolate_linear_both ?r = replicate (length ?new) None"
    using interp_days_none[OF len] by blast
  have nonull: "(\<exists>v. Some v \<in> set vs) \<longrightarrow> None \<notin> set (interpolate_linear_both ?r)"
    using reindex_column_keeps[OF dist len sub] interpolate_no_null by blast
  have single: "\<forall>v. filter (\<lambda>x. x \<noteq> None) vs = [Some v] \<longrightarrow>
      interpolate_linear_both ?r = replicate (length ?new) (Some v)"
  proof (intro allI impI)
    fix v assume "filter (\<lambda>x. x \<noteq> None) vs = [Some v]"
    from interpolate_single[OF reindex_column_single[OF dist len sub dn this]]
    show "interpolate_linear_both ?r = replicate (length ?new) (Some v)" by simp
  qed
  have U: "c = usrec_symbol \<longrightarrow>
              (\<forall>d v e. observed ix vs d v \<and> d \<le> e \<and> e \<le> mx \<and>
                       (\<forall>t. d < t \<and> t \<le> e \<longrightarrow> unobserved ix vs t)
                  \<longrightarrow> fill_column usrec_symbol c ?r ! nat (e - mn) = Some v) \<and>
              (\<forall>e. mn \<le> e \<and> e \<le> mx \<and> (\<forall>t. t \<le> e \<longrightarrow> unobserved ix vs t)
                  \<longrightarrow> fill_column usrec_symbol c ?r ! nat (e - mn) = None)"
  proof
    assume c: "c = usrec_symbol"
    show "(\<forall>d v e. observed ix vs d v \<and> d \<le> e \<and> e \<le> mx \<and>
                       (\<forall>t. d < t \<and> t \<le> e \<longrightarrow> unobserved ix vs t)
                  \<longrightarrow> fill_column usrec_symbol c ?r ! nat (e - mn) = Some v) \<and>
              (\<forall>e. mn \<le> e \<and> e \<le> mx \<and> (\<forall>t. t \<le> e \<longrightarrow> unobserved ix vs t)
                  \<longrightarrow> fill_column usrec_symbol c ?r ! nat (e - mn) = None)"
      unfolding A[OF c] using F1 F2 by (rule conjI)
  qed
  have O: "c \<noteq> usrec_symbol \<longrightarrow>
              (\<forall>a ya b yb e. observed ix vs a ya \<and> observed ix vs b yb \<and> a < b \<and>
                       (\<forall>t. a < t \<and> t < b \<longrightarrow> unobserved ix vs t) \<and> a \<le> e \<and> e \<le> b
                  \<longrightarrow> fill_column usrec_symbol c ?r ! nat (e - mn)
                        = Some (ya + (yb - ya) * of_int (e - a) / of_int (b - a))) \<and>
              (\<forall>a ya e. observed ix vs a ya \<and> (\<forall>t. t < a \<longrightarrow> unobserved ix vs t) \<and>
                       mn \<le> e \<and> e \<le> a
                  \<longrightarrow> fill_column usrec_symbol c ?r ! nat (e - mn) = Some ya) \<and>
              (\<forall>b yb e. observed ix vs b yb \<and> (\<forall>t. b < t \<longrightarrow> unobserved ix vs t) \<and>
                       b \<le> e \<and> e \<le> mx
                  \<longrightarrow> fill_column usrec_symbol c ?r ! nat (e - mn) = Some yb) \<and>
              ((\<forall>t. unobserved ix vs t) \<longrightarrow>
                  fill_column usrec_symbol c ?r = replicate (length (pd_index ?df)) None) \<and>
              ((\<exists>v. Some v \<in> set vs) \<longrightarrow> None \<notin> set (fill_column usrec_symbol c ?r)) \<and>
              (\<forall>v. filter (\<lambda>x. x \<noteq> None) vs = [Some v] \<longrightarrow>
                   fill_column usrec_symbol c ?r = replicate (length (pd_index ?df)) (Some v))"
  proof
    assume c: "c \<noteq> usrec_symbol"
    have idx: "pd_index ?df = ?new" by simp
    show "(\<forall>a ya b yb e. observed ix vs a ya \<and> observed ix vs b yb \<and> a < b \<and>
                       (\<forall>t. a < t \<and> t < b \<longrightarrow> unobserved ix vs t) \<and> a \<le> e \<and> e \<le> b
                  \<longrightarrow> fill_column usrec_symbol c ?r ! nat (e - mn)
                        = Some (ya + (yb - ya) * of_int (e - a) / of_int (b - a))) \<and>
              (\<forall>a ya e. observed ix vs a ya \<and> (\<forall>t. t < a \<longrightarrow> unobserved ix vs t) \<and>
                       mn \<le> e \<and> e \<le> a
                  \<longrightarrow> fill_column usrec_symbol c ?r ! nat (e - mn) = Some ya) \<and>
              (\<forall>b yb e. observed ix vs b yb \<and> (\<forall>t. b < t \<longrightarrow> unobserved ix vs t) \<and>
                       b \<le> e \<and> e \<le> mx
                  \<longrightarrow> fill_column usrec_symbol c ?r ! nat (e - mn) = Some yb) \<and>
              ((\<forall>t. unobserved ix vs t) \<longrightarrow>
                  fill_column usrec_symbol c ?r = replicate (length (pd_index ?df)) None) \<and>
              ((\<exists>v. Some v \<in> set vs) \<longrightarrow> None \<notin> set (fill_column usrec_symbol c ?r)) \<and>
              (\<forall>v. filter (\<lambda>x. x \<noteq> None) vs = [Some v] \<longrightarrow>
                   fill_column usrec_symbol c ?r = replicate (length (pd_index ?df)) (Some v))"
      unfolding B[OF c] idx using L1 L2 L3 L0 nonull single by (intro conjI)
  qed
  show ?thesis
  proof (intro exI[of _ ?df] exI[of _ "fill_column usrec_symbol c ?r"] conjI)
    show "interpolate_and_process df_wide usrec_symbol = Inr ?df" by (rule res)
    show "pd_index ?df = [mn..mx]" by simp
    show "length (pd_columns ?df) = length (pd_columns df_wide)" by simp
    show "pd_columns ?df ! k = (c, fill_column usrec_symbol c ?r)" by (rule col)
    show "length (fill_column usrec_symbol c ?r) = length (pd_index ?df)" by simp
  qed (rule U, rule O)
qed

theorem C6_fill_policy_witness:
  "\<not> pd_empty example_wide \<and> distinct (pd_index example_wide) \<and>
   interpolate_and_process example_wide ''USREC''
     = Inr \<lparr>pd_index = [10, 11, 12, 13, 14, 15],
            pd_columns = [(''USREC'', [None, None, Some 1, Some 1, Some 1, Some 1]),
                          (''X'', [Some 2, Some 3, Some 4, Some 5, Some 6, Some 7]),
                          (''Y'', [Some 4, Some 4, Some 4, Some 4, Some 4, Some 4])]\<rparr> \<and>
   (\<exists>df out. interpolate_and_process example_wide ''USREC'' = Inr df \<and>
      pd_columns df ! 0 = (''USREC'', out) \<and>
      out ! nat (14 - 10) = Some 1 \<and> out ! nat (11 - 10) = None) \<and>
   (\<exists>df out. interpolate_and_process example_wide ''USREC'' = Inr df \<and>
      pd_columns df ! 1 = (''X'', out) \<and>
      out ! nat (13 - 10) = Some (2 + (7 - 2) * of_int (13 - 10) / of_int (15 - 10)) \<and>
      None \<notin> set out) \<and>
   (\<exists>df out. interpolate_and_process example_wide ''USREC'' = Inr df \<and>
      pd_columns df ! 2 = (''Y'', out) \<and>
      out = replicate (length (pd_index df)) (Some 4))"
proof -
  let ?ix = "[10, 12, 15] :: int list"
  let ?u = "[None, Some 1, None] :: pcell list"
  let ?x = "[Some 2, None, Some 7] :: pcell list"
  let ?y = "[None, Some 4, None] :: pcell list"
  have h1: "\<not> pd_empty example_wide" by (simp add: example_wide_def pd_empty_def)
  have h2: "distinct (pd_index example_wide)" by (simp add: example_wide_def)
  have ix: "?ix = pd_index example_wide" by (simp add: example_wide_def)
  have mn: "10 = Min (set ?ix)" and mx: "15 = Max (set ?ix)" by simp_all
  have k0: "0 < length (pd_columns example_wide)" "pd_columns example_wide ! 0 = (''USREC'', ?u)"
    "length ?u = length (pd_index example_wide)"
    by (simp_all add: example_wide_def)
  have k1: "1 < length (pd_columns example_wide)" "pd_columns example_wide ! 1 = (''X'', ?x)"
    "length ?x = length (pd_index example_wide)"
    by (simp_all add: example_wide_def)
  have k2: "2 < length (pd_columns example_wide)" "pd_columns example_wide ! 2 = (''Y'', ?y)"
    "length ?y = length (pd_index example_wide)"
    by (simp_all add: example_wide_def)
  have run: "interpolate_and_process example_wide ''USREC''
     = Inr \<lparr>pd_index = [10, 11, 12, 13, 14, 15],
            pd_columns = [(''USREC'', [None, None, Some 1, Some 1, Some 1, Some 1]),
                          (''X'', [Some 2, Some 3, Some 4, Some 5, Some 6, Some 7]),
                          (''Y'', [Some 4, Some 4, Some 4, Some 4, Some 4, Some 4])]\<rparr>"
    by code_simp
  have u_obs: "observed ?ix ?u 12 1" by (intro exI[of _ 1]) simp
  have u_gap: "\<forall>t. 12 < t \<and> t \<le> 14 \<longrightarrow> unobserved ?ix ?u t"
    by (auto simp: less_Suc_eq numeral_3_eq_3)
  have u_lead: "\<forall>t. t \<le> 11 \<longrightarrow> unobserved ?ix ?u t"
    by (auto simp: less_Suc_eq numeral_3_eq_3)
  have x_a: "observed ?ix ?x 10 2" by (intro exI[of _ 0]) simp
  have x_b: "observed ?ix ?x 15 7" by (intro exI[of _ 2]) simp
  have x_gap: "\<forall>t. 10 < t \<and> t < 15 \<longrightarrow> unobserved ?ix ?x t"
    by (auto simp: less_Suc_eq numeral_3_eq_3)
  have x_some: "\<exists>v. Some v \<in> set ?x" by (intro exI[of _ 2]) simp
  have y_one: "filter (\<lambda>x. x \<noteq> None) ?y = [Some 4]" by simp
  have U: "\<exists>df out. interpolate_and_process example_wide ''USREC'' = Inr df \<and>
      pd_columns df ! 0 = (''USREC'', out) \<and>
      out ! nat (14 - 10) = Some 1 \<and> out ! nat (11 - 10) = None"
  proof -
    from C6_fill_policy[OF h1 h2 k0 ix mn mx, of "''USREC''"]
    obtain df out where res: "interpolate_and_process example_wide ''USREC'' = Inr df"
      and col: "pd_columns df ! 0 = (''USREC'', out)"
      and fills0: "''USREC'' = ''USREC'' \<longrightarrow>
           (\<forall>d v e. observed ?ix ?u d v \<and> d \<le> e \<and> e \<le> 15 \<and>
                    (\<forall>t. d < t \<and> t \<le> e \<longrightarrow> unobserved ?ix ?u t)
               \<longrightarrow> out ! nat (e - 10) = Some v) \<and>
           (\<forall>e. 10 \<le> e \<and> e \<le> 15 \<and> (\<forall>t. t \<le> e \<longrightarrow> unobserved ?ix ?u t)
               \<longrightarrow> out ! nat (e - 10) = None)"
      by (elim exE conjE) (rule that)
    note fills = fills0[THEN mp, OF refl]
    have "observed ?ix ?u 12 1 \<and> (12::int) \<le> 14 \<and> (14::int) \<le> 15 \<and>
          (\<forall>t. 12 < t \<and> t \<le> 14 \<longrightarrow> unobserved ?ix ?u t)"
      using u_obs u_gap by (intro conjI) simp_all
    from fills[THEN conjunct1, THEN spec, THEN spec, THEN spec, THEN mp, OF this]
    have v1: "out ! nat (14 - 10) = Some 1" .
    have "(10::int) \<le> 11 \<and> (11::int) \<le> 15 \<and> (\<forall>t. t \<le> 11 \<longrightarrow> unobserved ?ix ?u t)"
      using u_lead by (intro conjI) simp_all
    from fills[THEN conjunct2, THEN spec, THEN mp, OF this]
    have v2: "out ! nat (11 - 10) = None" .
    from res col v1 v2 show ?thesis by (intro exI conjI)
  qed
  have X: "\<exists>df out. interpolate_and_process example_wide ''USREC'' = Inr df \<and>
      pd_columns df ! 1 = (''X'', out) \<and>
      out ! nat (13 - 10) = Some (2 + (7 - 2) * of_int (13 - 10) / of_int (15 - 10)) \<and>
      None \<notin> set out"
  proof -
    from C6_fill_policy[OF h1 h2 k1 ix mn mx, of "''USREC''"]
    obtain df out where res: "interpolate_and_process example_wide ''USREC'' = Inr df"
      and col: "pd_columns df ! 1 = (''X'', out)"
      and fills: "''X'' \<noteq> ''USREC'' \<longrightarrow>
           (\<forall>a ya b yb e. observed ?ix ?x a ya \<and> observed ?ix ?x b yb \<and> a < b \<and>
                    (\<forall>t. a < t \<and> t < b \<longrightarrow> unobserved ?ix ?x t) \<and> a \<le> e \<and> e \<le> b
               \<longrightarrow> out ! nat (e - 10) = Some (ya + (yb - ya) * of_int (e - a) / of_int (b - a))) \<and>
           (\<forall>a ya e. observed ?ix ?x a ya \<and> (\<forall>t. t < a \<longrightarrow> unobserved ?ix ?x t) \<and>
                    10 \<le> e \<and> e \<le> a
               \<longrightarrow> out ! nat (e - 10) = Some ya) \<and>
           (\<forall>b yb e. observed ?ix ?x b yb \<and> (\<forall>t. b < t \<longrightarrow> unobserved ?ix ?x t) \<and>
                    b \<le> e \<and> e \<le> 15
               \<longrightarrow> out ! nat (e - 10) = Some yb) \<and>
           ((\<forall>t. unobserved ?ix ?x t) \<longrightarrow> out = replicate (length (pd_index df)) None) \<and>
           ((\<exists>v. Some v \<in> set ?x) \<longrightarrow> None \<notin> set out) \<and>
           (\<forall>v. filter (\<lambda>x. x \<noteq> None) ?x = [Some v] \<longrightarrow>
                out = replicate (length (pd_index df)) (Some v))"
      by (elim exE conjE) (rule that)
    have ne: "''X'' \<noteq> ''USREC''" by simp
    note f = fills[THEN mp, OF ne]
    have "observed ?ix ?x 10 2 \<and> observed ?ix ?x 15 7 \<and> (10::int) < 15 \<and>
          (\<forall>t. 10 < t \<and> t < 15 \<longrightarrow> unobserved ?ix ?x t) \<and> (10::int) \<le> 13 \<and> (13::int) \<le> 15"
      using x_a x_b x_gap by (intro conjI) simp_all
    from f[THEN conjunct1, THEN spec, THEN spec, THEN spec, THEN spec, THEN spec, THEN mp, OF this]
    have v1: "out ! nat (13 - 10) = Some (2 + (7 - 2) * of_int (13 - 10) / of_int (15 - 10))" .
    from f[THEN conjunct2, THEN conjunct2, THEN conjunct2, THEN conjunct2, THEN conjunct1,
           THEN mp, OF x_some]
    have v2: "None \<notin> set out" .
    from res col v1 v2 show ?thesis by (intro exI conjI)
  qed
  have Y: "\<exists>df out. interpolate_and_process example_wide ''USREC'' = Inr df \<and>
      pd_columns df ! 2 = (''Y'', out) \<and>
      out = replicate (length (pd_index df)) (Some 4)"
  proof -
    from C6_fill_policy[OF h1 h2 k2 ix mn mx, of "''USREC''"]
    obtain df out where res: "interpolate_and_process example_wide ''USREC'' = Inr df"
      and col: "pd_columns df ! 2 = (''Y'', out)"
      and fills: "''Y'' \<noteq> ''USREC'' \<longrightarrow>
           (\<forall>a ya b yb e. observed ?ix ?y a ya \<and> observed ?ix ?y b yb \<and> a < b \<and>
                    (\<forall>t. a < t \<and> t < b \<longrightarrow> unobserved ?ix ?y t) \<and> a \<le> e \<and> e \<le> b
               \<longrightarrow> out ! nat (e - 10) = Some (ya + (yb - ya) * of_int (e - a) / of_int (b - a))) \<and>
           (\<forall>a ya e. observed ?ix ?y a ya \<and> (\<forall>t. t < a \<longrightarrow> unobserved ?ix ?y t) \<and>
                    10 \<le> e \<and> e \<le> a
               \<longrightarrow> out ! nat (e - 10) = Some ya) \<and>
           (\<forall>b yb e. observed ?ix ?y b yb \<and> (\<forall>t. b < t \<longrightarrow> unobserved ?ix ?y t) \<and>
                    b \<le> e \<and> e \<le> 15
               \<longrightarrow> out ! nat (e - 10) = Some yb) \<and>
           ((\<forall>t. unobserved ?ix ?y t) \<longrightarrow> out = replicate (length (pd_index df)) None) \<and>
           ((\<exists>v. Some v \<in> set ?y) \<longrightarrow> None \<notin> set out) \<and>
           (\<forall>v. filter (\<lambda>x. x \<noteq> None) ?y = [Some v] \<longrightarrow>
                out = replicate (length (pd_index df)) (Some v))"
      by (elim exE conjE) (rule that)
    have ne: "''Y'' \<noteq> ''USREC''" by simp
    note f = fills[THEN mp, OF ne]
    from f[THEN conjunct2, THEN conjunct2, THEN conjunct2, THEN conjunct2, THEN conjunct2,
           THEN spec, THEN mp, OF y_one]
    have v: "out = replicate (length (pd_index df)) (Some 4)" .
    from res col v show ?thesis by (intro exI conjI)
  qed
  show ?thesis using h1 h2 run U X Y by (intro conjI)
qed

section \<open>Properties of the Signal Smoother\<close>

lemma length_interp_gap [simp]: "length (interp_gap low high (Suc n)) = n"
  by (simp add: interp_gap_def)

lemma length_interp_run [simp]: "length (interp_run low gap xs) = gap + length xs"
  by (induction low gap xs rule: interp_run.induct) simp_all

lemma length_interpolate_values [simp]: "length (interpolate_values xs) = length xs"
  by (induction xs rule: interpolate_values.induct) simp_all

lemma length_bfill [simp]: "length (bfill xs) = length xs"
  by (induction xs rule: bfill.induct) (auto split: list.splits)

lemma length_s_processed [simp]: "length (s_values (s_processed s)) = length (s_values s)"
  by (simp add: s_processed_def fill_null_forward_def fill_null_backward_def interpolate_def)

lemma name_s_processed [simp]: "s_name (s_processed s) = s_name s"
  by (simp add: s_processed_def fill_null_forward_def fill_null_backward_def interpolate_def)

lemma length_cast [simp]: "length (s_values (cast s dt)) = length (s_values s)"
  by (simp add: cast_def)

lemma name_cast [simp]: "s_name (cast s dt) = s_name s"
  by (simp add: cast_def)

lemma length_s_np [simp]: "length (s_np s) = length (s_values s)"
  by (simp add: s_np_def to_numpy_def)

text \<open>Values survive the fills.\<close>

lemma interp_run_keeps: "Some v \<in> set xs \<Longrightarrow> Some v \<in> set (interp_run low gap xs)"
  by (induction low gap xs rule: interp_run.induct) auto

lemma interpolate_values_keeps: "Some v \<in> set xs \<Longrightarrow> Some v \<in> set (interpolate_values xs)"
  by (induction xs rule: interpolate_values.induct) (auto simp: interp_run_keeps)

lemma bfill_keeps: "Some v \<in> set xs \<Longrightarrow> Some v \<in> set (bfill xs)"
  by (induction xs rule: bfill.induct) (auto split: list.splits)

lemma ffill_from_keeps: "Some v \<in> set xs \<Longrightarrow> Some v \<in> set (ffill_from p xs)"
  by (induction p xs rule: ffill_from.induct) auto

lemma s_processed_keeps:
  "Some v \<in> set (s_values s) \<Longrightarrow> Some v \<in> set (s_values (s_processed s))"
  by (simp add: s_processed_def fill_null_forward_def fill_null_backward_def interpolate_def
      ffill_def ffill_from_keeps bfill_keeps interpolate_values_keeps)

lemma dtype_s_processed [simp]: "s_dtype (s_processed s) = Float64"
  by (simp add: s_processed_def fill_null_forward_def fill_null_backward_def interpolate_def)

lemma s_np_eq: "s_np s = to_numpy (s_processed s)"
  by (simp add: s_np_def is_float_def)

lemma usable_value_counts:
  assumes "Some v \<in> set (s_values s)" "v \<noteq> NaN"
  shows "\<not> is_empty s" "\<not> all_null s" "\<not> all_null (s_processed s)" "num_valid_points s \<noteq> 0"
proof -
  show "\<not> is_empty s" using assms by (auto simp: is_empty_def)
  show "\<not> all_null s" using assms by (auto simp: all_null_def)
  have sp: "Some v \<in> set (s_values (s_processed s))" by (rule s_processed_keeps[OF assms(1)])
  then show "\<not> all_null (s_processed s)" by (auto simp: all_null_def)
  from sp have "v \<in> set (s_np s)" by (force simp: s_np_eq to_numpy_def image_iff)
  with assms(2) have "filter (\<lambda>v. v \<noteq> NaN) (s_np s) \<noteq> []" by (auto simp: filter_empty_conv)
  then show "num_valid_points s \<noteq> 0" by (simp add: num_valid_points_def)
qed

lemma adjust_window_raised:
  "w \<le> p \<Longrightarrow> adjust_window w p = (if p mod 2 = 0 then p + 3 else p + 2)"
  by (simp add: adjust_window_def Let_def) presburger

text \<open>The interpolation and the two boundary fills, by position.\<close>

lemma interp_run_none:
  "(\<forall>c\<in>set xs. c = None) \<Longrightarrow> interp_run low gap xs = replicate (gap + length xs) None"
proof (induction xs arbitrary: gap)
  case Nil
  then show ?case by simp
next
  case (Cons x xs)
  then have x: "x = None" and rest: "\<forall>c\<in>set xs. c = None" by simp_all
  have "interp_run low gap (x # xs) = interp_run low (Suc gap) xs" by (simp add: x)
  also have "\<dots> = replicate (Suc gap + length xs) None" by (rule Cons.IH[OF rest])
  finally show ?case by simp
qed

lemma interp_run_gap:
  "(\<forall>c\<in>set mid. c = None) \<Longrightarrow>
     interp_run low gap (mid @ Some v # rest)
       = map Some (interp_gap low v (Suc (gap + length mid))) @ Some v # interp_run v 0 rest"
proof (induction mid arbitrary: gap)
  case Nil
  then show ?case by simp
next
  case (Cons x mid)
  then have x: "x = None" and rest: "\<forall>c\<in>set mid. c = None" by simp_all
  have "interp_run low gap ((x # mid) @ Some v # rest) = interp_run low (Suc gap) (mid @ Some v # rest)"
    by (simp add: x)
  also have "\<dots> = map Some (interp_gap low v (Suc (Suc gap + length mid))) @ Some v # interp_run v 0 rest"
    by (rule Cons.IH[OF rest])
  finally show ?case by simp
qed

lemma interp_run_split:
  "\<exists>pre. length pre = gap + length us \<and>
         interp_run low gap (us @ Some v # rest) = pre @ Some v # interp_run v 0 rest"
proof (induction us arbitrary: low gap)
  case Nil
  show ?case by (rule exI[of _ "map Some (interp_gap low v (Suc gap))"]) simp
next
  case (Cons x us)
  show ?case
  proof (cases x)
    case None
    from Cons.IH[of "Suc gap" low] obtain pre where
      "length pre = Suc gap + length us"
      "interp_run low (Suc gap) (us @ Some v # rest) = pre @ Some v # interp_run v 0 rest"
      by blast
    then show ?thesis by (intro exI[of _ pre]) (simp add: None)
  next
    case (Some w)
    from Cons.IH[of 0 w] obtain pre where pre:
      "length pre = length us"
      "interp_run w 0 (us @ Some v # rest) = pre @ Some v # interp_run v 0 rest"
      by auto
    show ?thesis
      by (intro exI[of _ "map Some (interp_gap low w (Suc gap)) @ Some w # pre"])
         (simp add: Some pre)
  qed
qed

lemma interpolate_values_split:
  "\<exists>pre. length pre = length us \<and>
         interpolate_values (us @ Some v # rest) = pre @ Some v # interp_run v 0 rest"
proof (induction us)
  case Nil
  show ?case by (rule exI[of _ "[]"]) simp
next
  case (Cons x us)
  show ?case
  proof (cases x)
    case None
    from Cons.IH obtain pre where
      "length pre = length us"
      "interpolate_values (us @ Some v # rest) = pre @ Some v # interp_run v 0 rest"
      by blast
    then show ?thesis by (intro exI[of _ "None # pre"]) (simp add: None)
  next
    case (Some w)
    from interp_run_split[of 0 us w v rest] obtain pre where pre:
      "length pre = length us"
      "interp_run w 0 (us @ Some v # rest) = pre @ Some v # interp_run v 0 rest"
      by auto
    show ?thesis
      by (intro exI[of _ "Some w # pre"]) (simp add: Some pre)
  qed
qed

lemma interpolate_values_leading:
  "(\<forall>c\<in>set us. c = None) \<Longrightarrow> interpolate_values (us @ zs) = us @ interpolate_values zs"
  by (induction us) simp_all

lemma interp_gap_nth:
  assumes "j < n"
  shows "interp_gap low high (Suc n) ! j
           = f_add low (f_mul (Fin (of_nat (Suc j))) (f_div (f_sub high low) (Fin (of_nat (Suc n)))))"
proof -
  have "[1..<Suc n] ! j = 1 + j" using assms by (intro nth_upt) simp
  then have k: "[1..<Suc n] ! j = Suc j" by simp
  have l: "j < length [1..<Suc n]" using assms by simp
  show ?thesis unfolding interp_gap_def nth_map[OF l] k ..
qed

lemma interpolate_values_keeps_nth:
  assumes "i < length xs" "xs ! i = Some v"
  shows "interpolate_values xs ! i = Some v"
proof -
  have xs: "take i xs @ Some v # drop (Suc i) xs = xs"
    using id_take_nth_drop[OF assms(1)] assms(2) by simp
  from interpolate_values_split[of "take i xs" v "drop (Suc i) xs"]
  obtain pre where pre: "length pre = length (take i xs)"
    and eq: "interpolate_values (take i xs @ Some v # drop (Suc i) xs)
               = pre @ Some v # interp_run v 0 (drop (Suc i) xs)"
    by blast
  have li: "length pre = i" using pre assms(1) by simp
  have "interpolate_values xs ! i = (pre @ Some v # interp_run v 0 (drop (Suc i) xs)) ! i"
    using eq unfolding xs by simp
  also have "\<dots> = Some v" using li by (simp add: nth_append)
  finally show ?thesis .
qed

lemma interpolate_values_between:
  assumes "a < b" "b < length xs" "xs ! a = Some ya" "xs ! b = Some yb"
    "\<forall>k. a < k \<and> k < b \<longrightarrow> xs ! k = None" "a < e" "e < b"
  shows "interpolate_values xs ! e
           = Some (f_add ya (f_mul (Fin (of_nat (e - a))) (f_div (f_sub yb ya) (Fin (of_nat (b - a))))))"
proof -
  let ?mid = "take (b - Suc a) (drop (Suc a) xs)"
  let ?post = "drop (Suc b) xs"
  have xs: "take a xs @ Some ya # ?mid @ Some yb # ?post = xs"
    using list_split_two[OF assms(1,2)] unfolding assms(3,4) by (rule sym)
  have mid: "\<forall>c\<in>set ?mid. c = None" by (rule all_none_between[OF assms(1,2,5)])
  have lm: "length ?mid = b - Suc a" using assms(1,2) by simp
  from interpolate_values_split[of "take a xs" ya "?mid @ Some yb # ?post"]
  obtain pre where pre: "length pre = length (take a xs)"
    and eq: "interpolate_values (take a xs @ Some ya # ?mid @ Some yb # ?post)
               = pre @ Some ya # interp_run ya 0 (?mid @ Some yb # ?post)"
    by blast
  have la: "length pre = a" using pre assms(1,2) by simp
  have run: "interp_run ya 0 (?mid @ Some yb # ?post)
               = map Some (interp_gap ya yb (Suc (b - Suc a))) @ Some yb # interp_run yb 0 ?post"
    using interp_run_gap[OF mid, of ya 0 yb ?post] unfolding lm by simp
  define j where "j = e - Suc a"
  have j: "j < b - Suc a" "e = a + Suc j" using assms(6,7) by (simp_all add: j_def)
  have lg: "length (map Some (interp_gap ya yb (Suc (b - Suc a)))) = b - Suc a"
    by simp
  have "interpolate_values xs ! e
          = (pre @ Some ya # map Some (interp_gap ya yb (Suc (b - Suc a)))
               @ Some yb # interp_run yb 0 ?post) ! e"
    using eq unfolding xs run by simp
  also have "\<dots> = (map Some (interp_gap ya yb (Suc (b - Suc a)))
               @ Some yb # interp_run yb 0 ?post) ! j"
    using la j(2) by (simp add: nth_append)
  also have "\<dots> = map Some (interp_gap ya yb (Suc (b - Suc a))) ! j"
    using j(1) lg by (simp add: nth_append)
  also have "\<dots> = Some (interp_gap ya yb (Suc (b - Suc a)) ! j)"
    using j(1) by simp
  also have "interp_gap ya yb (Suc (b - Suc a)) ! j
               = f_add ya (f_mul (Fin (of_nat (Suc j))) (f_div (f_sub yb ya) (Fin (of_nat (Suc (b - Suc a))))))"
    by (rule interp_gap_nth[OF j(1)])
  also have "Suc j = e - a" using j(2) by simp
  also have "Suc (b - Suc a) = b - a" using assms(1) by simp
  finally show ?thesis .
qed

lemma interpolate_values_leading_none:
  assumes "a \<le> length xs" "\<forall>k<a. xs ! k = None" "e < a"
  shows "interpolate_values xs ! e = None"
proof -
  have lead: "\<forall>c\<in>set (take a xs). c = None"
    using assms(1,2) by (auto simp: in_set_conv_nth)
  have "interpolate_values xs = interpolate_values (take a xs @ drop a xs)" by simp
  also have "\<dots> = take a xs @ interpolate_values (drop a xs)"
    by (rule interpolate_values_leading[OF lead])
  finally have "interpolate_values xs ! e = take a xs ! e"
    using assms(1,3) by (simp add: nth_append)
  then show ?thesis using assms(2,3) by simp
qed

lemma interpolate_values_trailing_none:
  assumes "b < length xs" "xs ! b = Some yb" "\<forall>k. b < k \<and> k < length xs \<longrightarrow> xs ! k = None"
    "b < e" "e < length xs"
  shows "interpolate_values xs ! e = None"
proof -
  let ?post = "drop (Suc b) xs"
  have xs: "take b xs @ Some yb # ?post = xs"
    using id_take_nth_drop[OF assms(1)] assms(2) by simp
  have post: "\<forall>c\<in>set ?post. c = None"
    using assms(1,3) by (auto simp: in_set_conv_nth)
  from interpolate_values_split[of "take b xs" yb ?post]
  obtain pre where pre: "length pre = length (take b xs)"
    and eq: "interpolate_values (take b xs @ Some yb # ?post)
               = pre @ Some yb # interp_run yb 0 ?post"
    by blast
  have lb: "length pre = b" using pre assms(1) by simp
  have run: "interp_run yb 0 ?post = replicate (length ?post) None"
    using interp_run_none[OF post, of yb 0] by simp
  obtain j where j: "e = b + Suc j" using assms(4) by (metis less_imp_Suc_add add_Suc_right)
  have jl: "j < length ?post" using assms(5) j by simp
  have "interpolate_values xs ! e = (pre @ Some yb # replicate (length ?post) None) ! e"
    using eq unfolding xs run by simp
  also have "\<dots> = replicate (length ?post) None ! j"
    using lb j by (simp add: nth_append)
  also have "\<dots> = None" using jl by simp
  finally show ?thesis .
qed

lemma bfill_None_Suc: "i < length xs \<Longrightarrow> bfill (None # xs) ! Suc i = bfill xs ! i"
proof -
  assume i: "i < length xs"
  then have "bfill xs \<noteq> []" by (metis length_bfill length_0_conv less_nat_zero_code)
  then obtain y ys where "bfill xs = y # ys" by (cases "bfill xs") auto
  then show ?thesis by simp
qed

lemma bfill_None_0: "xs \<noteq> [] \<Longrightarrow> bfill (None # xs) ! 0 = bfill xs ! 0"
proof -
  assume "xs \<noteq> []"
  then have "bfill xs \<noteq> []" by (metis length_bfill length_0_conv)
  then obtain y ys where "bfill xs = y # ys" by (cases "bfill xs") auto
  then show ?thesis by simp
qed

lemma bfill_keeps_nth: "i < length ys \<Longrightarrow> ys ! i = Some v \<Longrightarrow> bfill ys ! i = Some v"
proof (induction ys arbitrary: i)
  case Nil
  then show ?case by simp
next
  case (Cons y ys)
  show ?case
  proof (cases i)
    case 0
    with Cons.prems show ?thesis by simp
  next
    case (Suc m)
    with Cons.prems have m: "m < length ys" "ys ! m = Some v" by simp_all
    from Cons.IH[OF m] have ih: "bfill ys ! m = Some v" .
    show ?thesis
    proof (cases y)
      case None
      then show ?thesis using bfill_None_Suc[OF m(1)] ih Suc by simp
    next
      case (Some w)
      then show ?thesis using ih Suc by simp
    qed
  qed
qed

lemma bfill_next:
  "e \<le> a \<Longrightarrow> a < length ys \<Longrightarrow> ys ! a = Some v \<Longrightarrow> (\<forall>k. e \<le> k \<and> k < a \<longrightarrow> ys ! k = None)
     \<Longrightarrow> bfill ys ! e = Some v"
proof (induction ys arbitrary: e a)
  case Nil
  then show ?case by simp
next
  case (Cons y ys)
  show ?case
  proof (cases "e = a")
    case True
    then show ?thesis using bfill_keeps_nth[of a "y # ys" v] Cons.prems by simp
  next
    case False
    with Cons.prems(1) have ea: "e < a" by simp
    then obtain a' where a': "a = Suc a'" by (cases a) auto
    have al: "a' < length ys" and av: "ys ! a' = Some v" using Cons.prems(2,3) a' by simp_all
    show ?thesis
    proof (cases e)
      case 0
      have y: "y = None" using Cons.prems(4)[THEN spec, of 0] 0 ea by simp
      have gap: "\<forall>k. 0 \<le> k \<and> k < a' \<longrightarrow> ys ! k = None"
      proof (intro allI impI)
        fix k assume "0 \<le> k \<and> k < a'"
        then have "e \<le> Suc k \<and> Suc k < a" using 0 a' by simp
        from Cons.prems(4)[THEN spec, THEN mp, OF this] show "ys ! k = None" by simp
      qed
      have "bfill ys ! 0 = Some v" by (rule Cons.IH[OF _ al av gap]) simp
      moreover have "ys \<noteq> []" using al by auto
      ultimately show ?thesis using bfill_None_0[of ys] y 0 by simp
    next
      case (Suc e')
      have gap: "\<forall>k. e' \<le> k \<and> k < a' \<longrightarrow> ys ! k = None"
      proof (intro allI impI)
        fix k assume "e' \<le> k \<and> k < a'"
        then have "e \<le> Suc k \<and> Suc k < a" using Suc a' by simp
        from Cons.prems(4)[THEN spec, THEN mp, OF this] show "ys ! k = None" by simp
      qed
      have le: "e' \<le> a'" using ea Suc a' by simp
      have ih: "bfill ys ! e' = Some v" by (rule Cons.IH[OF le al av gap])
      have el: "e' < length ys" using le al by simp
      show ?thesis
      proof (cases y)
        case None
        then show ?thesis using bfill_None_Suc[OF el] ih Suc by simp
      next
        case (Some w)
        then show ?thesis using ih Suc by simp
      qed
    qed
  qed
qed

lemma bfill_trailing_none:
  "e < length ys \<Longrightarrow> (\<forall>k. e \<le> k \<and> k < length ys \<longrightarrow> ys ! k = None) \<Longrightarrow> bfill ys ! e = None"
proof (induction ys arbitrary: e)
  case Nil
  then show ?case by simp
next
  case (Cons y ys)
  show ?case
  proof (cases e)
    case 0
    have y: "y = None" using Cons.prems(2)[THEN spec, of 0] 0 by simp
    show ?thesis
    proof (cases "ys = []")
      case True
      then show ?thesis using y 0 by simp
    next
      case False
      have gap: "\<forall>k. 0 \<le> k \<and> k < length ys \<longrightarrow> ys ! k = None"
      proof (intro allI impI)
        fix k assume "0 \<le> k \<and> k < length ys"
        then have "e \<le> Suc k \<and> Suc k < length (y # ys)" using 0 by simp
        from Cons.prems(2)[THEN spec, THEN mp, OF this] show "ys ! k = None" by simp
      qed
      have "bfill ys ! 0 = None" by (rule Cons.IH[OF _ gap]) (use False in simp)
      then show ?thesis using bfill_None_0[OF False] y 0 by simp
    qed
  next
    case (Suc e')
    have el: "e' < length ys" using Cons.prems(1) Suc by simp
    have gap: "\<forall>k. e' \<le> k \<and> k < length ys \<longrightarrow> ys ! k = None"
    proof (intro allI impI)
      fix k assume "e' \<le> k \<and> k < length ys"
      then have "e \<le> Suc k \<and> Suc k < length (y # ys)" using Suc by simp
      from Cons.prems(2)[THEN spec, THEN mp, OF this] show "ys ! k = None" by simp
    qed
    have ih: "bfill ys ! e' = None" by (rule Cons.IH[OF el gap])
    show ?thesis
    proof (cases y)
      case None
      then show ?thesis using bfill_None_Suc[OF el] ih Suc by simp
    next
      case (Some w)
      then show ?thesis using ih Suc by simp
    qed
  qed
qed

lemma ffill_keeps_nth: "i < length ys \<Longrightarrow> ys ! i = Some v \<Longrightarrow> ffill ys ! i = Some v"
  unfolding ffill_def by (rule ffill_from_last[of i i]) auto

lemma ffill_from_Some_no_null: "None \<notin> set (ffill_from (Some p) zs)"
proof (induction zs arbitrary: p)
  case Nil
  show ?case by simp
next
  case (Cons z zs)
  show ?case by (cases z) (simp_all add: Cons.IH)
qed

lemma s_values_s_processed:
  "s_values (s_processed s) = ffill (bfill (interpolate_values (s_values s)))"
  by (simp add: s_processed_def fill_null_forward_def fill_null_backward_def interpolate_def)

lemma filled_keeps:
  assumes "i < length xs" "xs ! i = Some v"
  shows "ffill (bfill (interpolate_values xs)) ! i = Some v"
proof -
  have "interpolate_values xs ! i = Some v" by (rule interpolate_values_keeps_nth[OF assms])
  then have "bfill (interpolate_values xs) ! i = Some v"
    using assms(1) by (intro bfill_keeps_nth) simp_all
  then show ?thesis using assms(1) by (intro ffill_keeps_nth) simp_all
qed

lemma filled_between:
  assumes "a < b" "b < length xs" "xs ! a = Some ya" "xs ! b = Some yb"
    "\<forall>k. a < k \<and> k < b \<longrightarrow> xs ! k = None" "a < e" "e < b"
  shows "ffill (bfill (interpolate_values xs)) ! e
           = Some (f_add ya (f_mul (Fin (of_nat (e - a))) (f_div (f_sub yb ya) (Fin (of_nat (b - a))))))"
proof -
  have el: "e < length xs" using assms(2,7) by simp
  have "interpolate_values xs ! e
          = Some (f_add ya (f_mul (Fin (of_nat (e - a))) (f_div (f_sub yb ya) (Fin (of_nat (b - a))))))"
    by (rule interpolate_values_between[OF assms])
  then have "bfill (interpolate_values xs) ! e
          = Some (f_add ya (f_mul (Fin (of_nat (e - a))) (f_div (f_sub yb ya) (Fin (of_nat (b - a))))))"
    using el by (intro bfill_keeps_nth) simp_all
  then show ?thesis using el by (intro ffill_keeps_nth) simp_all
qed

lemma filled_between_finite:
  assumes "a < b" "b < length xs" "xs ! a = Some (Fin p)" "xs ! b = Some (Fin q)"
    "\<forall>k. a < k \<and> k < b \<longrightarrow> xs ! k = None" "a < e" "e < b"
  shows "ffill (bfill (interpolate_values xs)) ! e
           = Some (Fin (p + of_nat (e - a) * ((q - p) / of_nat (b - a))))"
proof -
  have "of_nat (b - a) \<noteq> (0::rat)" using assms(1) by simp
  then show ?thesis using filled_between[OF assms] by (simp add: f_sub_def)
qed

lemma filled_leading:
  assumes "a < length xs" "xs ! a = Some ya" "\<forall>k<a. xs ! k = None" "e \<le> a"
  shows "ffill (bfill (interpolate_values xs)) ! e = Some ya"
proof -
  let ?iv = "interpolate_values xs"
  have al: "a < length ?iv" using assms(1) by simp
  have a: "?iv ! a = Some ya" by (rule interpolate_values_keeps_nth[OF assms(1,2)])
  have gap: "\<forall>k. e \<le> k \<and> k < a \<longrightarrow> ?iv ! k = None"
  proof (intro allI impI)
    fix k assume "e \<le> k \<and> k < a"
    then have "k < a" by simp
    with interpolate_values_leading_none[of a xs k] assms(1,3) show "?iv ! k = None" by simp
  qed
  have "bfill ?iv ! e = Some ya" by (rule bfill_next[OF assms(4) al a gap])
  then show ?thesis using assms(1,4) by (intro ffill_keeps_nth) simp_all
qed

lemma filled_trailing:
  assumes "b < length xs" "xs ! b = Some yb" "\<forall>k. b < k \<and> k < length xs \<longrightarrow> xs ! k = None"
    "b \<le> e" "e < length xs"
  shows "ffill (bfill (interpolate_values xs)) ! e = Some yb"
proof -
  let ?iv = "interpolate_values xs"
  let ?bf = "bfill ?iv"
  have bv: "?bf ! b = Some yb"
    using interpolate_values_keeps_nth[OF assms(1,2)] assms(1) by (intro bfill_keeps_nth) simp_all
  have iv_none: "?iv ! k = None" if "b < k" "k < length xs" for k
    by (rule interpolate_values_trailing_none[OF assms(1,2,3) that])
  have gap: "\<forall>k. b < k \<and> k \<le> e \<longrightarrow> ?bf ! k = None"
  proof (intro allI impI)
    fix k assume k: "b < k \<and> k \<le> e"
    then have kl: "k < length ?iv" using assms(5) by simp
    have tail: "\<forall>k'. k \<le> k' \<and> k' < length ?iv \<longrightarrow> ?iv ! k' = None"
    proof (intro allI impI)
      fix k' assume "k \<le> k' \<and> k' < length ?iv"
      then have "b < k'" "k' < length xs" using k by simp_all
      then show "?iv ! k' = None" by (rule iv_none)
    qed
    show "?bf ! k = None" by (rule bfill_trailing_none[OF kl tail])
  qed
  have el: "e < length ?bf" using assms(5) by simp
  show ?thesis unfolding ffill_def by (rule ffill_from_last[OF assms(4) el bv gap])
qed

lemma filled_no_null:
  assumes "Some v \<in> set xs"
  shows "None \<notin> set (ffill (bfill (interpolate_values xs)))"
proof -
  let ?iv = "interpolate_values xs"
  have "\<exists>i. i < length xs \<and> xs ! i \<noteq> None"
    using assms by (metis in_set_conv_nth option.distinct(1))
  then obtain a where a: "a < length xs \<and> xs ! a \<noteq> None"
    and least: "\<forall>k<a. \<not> (k < length xs \<and> xs ! k \<noteq> None)"
    using exists_least_iff[of "\<lambda>i. i < length xs \<and> xs ! i \<noteq> None"] by blast
  then obtain ya where ya: "xs ! a = Some ya" by auto
  have lead: "\<forall>k<a. xs ! k = None" using least a by auto
  have al: "a < length ?iv" using a by simp
  have av: "?iv ! a = Some ya" using interpolate_values_keeps_nth[of a xs ya] a ya by simp
  have gap: "\<forall>k. 0 \<le> k \<and> k < a \<longrightarrow> ?iv ! k = None"
  proof (intro allI impI)
    fix k assume "0 \<le> k \<and> k < a"
    then have "k < a" by simp
    with interpolate_values_leading_none[of a xs k] a lead show "?iv ! k = None" by simp
  qed
  have b0: "bfill ?iv ! 0 = Some ya" by (rule bfill_next[OF _ al av gap]) simp
  have "bfill ?iv \<noteq> []" using al by (metis length_bfill length_0_conv less_nat_zero_code)
  then obtain y ys where bf: "bfill ?iv = y # ys" by (cases "bfill ?iv") auto
  with b0 have y: "y = Some ya" by simp
  show ?thesis unfolding ffill_def bf y using ffill_from_Some_no_null[of ya ys] by simp
qed

lemma s_processed_record:
  "s_processed s = \<lparr>s_name = s_name s, s_dtype = Float64,
                     s_values = ffill (bfill (interpolate_values (s_values s)))\<rparr>"
  by (cases s) (simp add: s_processed_def fill_null_forward_def fill_null_backward_def interpolate_def)

lemma cast_record:
  "cast \<lparr>s_name = nm, s_dtype = dt0, s_values = vs\<rparr> dt
     = \<lparr>s_name = nm, s_dtype = dt, s_values = map (\<lambda>c. Option.bind c (cast_value dt)) vs\<rparr>"
  by (simp add: cast_def)

lemma cast_float_values: "map (\<lambda>c. Option.bind c (cast_value Float64)) vs = vs"
proof -
  have "Option.bind c (cast_value Float64) = c" for c
    by (cases c) (simp_all add: cast_value_def is_float_def)
  then show ?thesis by (simp add: map_idI)
qed


text \<open>
  C2. On a column with a usable value (a cell that is neither null nor NaN, the
  samples the function counts), the filled column keeps every value, holds
  \<open>low + step * ((high - low) / steps)\<close> on the nulls between two values, the first
  value before it and the last value after it, and has no null. Whenever the window,
  after being shrunk to the usable sample count (or one less if that count is even),
  does not exceed the polynomial order, and whenever the filter raises a
  \<open>ValueError\<close>, \<open>apply_savgol_filter\<close> returns this filled column under the name
  and in the dtype of its input; with a filter that fails in no other way it always
  returns a series.
\<close>

theorem C2_smoother_degrades:
  assumes "Some v \<in> set (s_values s)" and "v \<noteq> NaN" and "xs = s_values s"
  shows "\<exists>filled.
           length filled = length xs \<and> None \<notin> set filled \<and>
           (\<forall>i w. i < length xs \<and> xs ! i = Some w \<longrightarrow> filled ! i = Some w) \<and>
           (\<forall>a ya b yb e. a < e \<and> e < b \<and> b < length xs \<and> xs ! a = Some ya \<and> xs ! b = Some yb \<and>
                    (\<forall>k. a < k \<and> k < b \<longrightarrow> xs ! k = None)
               \<longrightarrow> filled ! e
                     = Some (f_add ya (f_mul (Fin (of_nat (e - a)))
                                            (f_div (f_sub yb ya) (Fin (of_nat (b - a))))))) \<and>
           (\<forall>a p b q e. a < e \<and> e < b \<and> b < length xs \<and>
                    xs ! a = Some (Fin p) \<and> xs ! b = Some (Fin q) \<and>
                    (\<forall>k. a < k \<and> k < b \<longrightarrow> xs ! k = None)
               \<longrightarrow> filled ! e = Some (Fin (p + of_nat (e - a) * ((q - p) / of_nat (b - a))))) \<and>
           (\<forall>a ya e. a < length xs \<and> xs ! a = Some ya \<and> (\<forall>k<a. xs ! k = None) \<and> e \<le> a
               \<longrightarrow> filled ! e = Some ya) \<and>
           (\<forall>b yb e. b < length xs \<and> xs ! b = Some yb \<and>
                    (\<forall>k. b < k \<and> k < length xs \<longrightarrow> xs ! k = None) \<and> b \<le> e \<and> e < length xs
               \<longrightarrow> filled ! e = Some yb) \<and>
           (\<exists>degraded np usable window.
              degraded = \<lparr>s_name = s_name s, s_dtype = s_dtype s,
                          s_values = map (\<lambda>c. Option.bind c (cast_value (s_dtype s))) filled\<rparr> \<and>
              (s_dtype s = Float64 \<longrightarrow> s_values degraded = filled) \<and>
              np = map (\<lambda>c. case c of None \<Rightarrow> NaN | Some x \<Rightarrow> x) filled \<and>
              usable = int (length (filter (\<lambda>x. x \<noteq> NaN) np)) \<and> 0 < usable \<and>
              window = (if adjust_window window_length polyorder > usable
                        then (if usable mod 2 \<noteq> 0 then usable else max 1 (usable - 1))
                        else adjust_window window_length polyorder) \<and>
              (window \<le> polyorder \<longrightarrow>
                 apply_savgol_filter flt s window_length polyorder deriv = Inr degraded) \<and>
              (\<forall>e. flt np window polyorder deriv = Inl e \<and> is_ValueError e \<longrightarrow>
                 apply_savgol_filter flt s window_length polyorder deriv = Inr degraded) \<and>
              ((\<forall>x w p d e. flt x w p d = Inl e \<longrightarrow> is_ValueError e) \<longrightarrow>
                 (\<exists>r. apply_savgol_filter flt s window_length polyorder deriv = Inr r)))"
proof -
  let ?filled = "ffill (bfill (interpolate_values xs))"
  let ?degraded = "\<lparr>s_name = s_name s, s_dtype = s_dtype s,
                     s_values = map (\<lambda>c. Option.bind c (cast_value (s_dtype s))) ?filled\<rparr>"
  let ?np = "map (\<lambda>c. case c of None \<Rightarrow> NaN | Some x \<Rightarrow> x) ?filled"
  let ?usable = "int (length (filter (\<lambda>x. x \<noteq> NaN) ?np))"
  let ?window = "if adjust_window window_length polyorder > ?usable
                        then (if ?usable mod 2 \<noteq> 0 then ?usable else max 1 (?usable - 1))
                        else adjust_window window_length polyorder"
  note u = usable_value_counts[OF assms(1,2)]
  have sp: "s_processed s = \<lparr>s_name = s_name s, s_dtype = Float64, s_values = ?filled\<rparr>"
    unfolding assms(3) by (rule s_processed_record)
  have deg: "cast (s_processed s) (s_dtype s) = ?degraded"
    unfolding sp by (rule cast_record)
  have np: "s_np s = ?np" by (simp add: s_np_eq to_numpy_def sp)
  have usable: "num_valid_points s = ?usable" by (simp add: num_valid_points_def np)
  have pos: "0 < ?usable" using u(4) unfolding usable by simp
  have window: "effective_window_length s window_length polyorder = ?window"
    unfolding effective_window_length_def shrink_window_def usable ..
  have A: "apply_savgol_filter flt s window_length polyorder deriv = Inr ?degraded"
    if "?window \<le> polyorder"
  proof -
    from that have "effective_window_length s window_length polyorder \<le> polyorder"
      by (simp only: window)
    then have "apply_savgol_filter flt s window_length polyorder deriv
                 = Inr (cast (s_processed s) (s_dtype s))"
      using u by (simp add: apply_savgol_filter_def Let_def)
    then show ?thesis by (simp only: deg)
  qed
  have B: "apply_savgol_filter flt s window_length polyorder deriv = Inr ?degraded"
    if "flt ?np ?window polyorder deriv = Inl e" "is_ValueError e" for e
  proof -
    from that(1) have "flt (s_np s) (effective_window_length s window_length polyorder)
                          polyorder deriv = Inl e"
      by (simp only: window np)
    then have "apply_savgol_filter flt s window_length polyorder deriv
                 = Inr (cast (s_processed s) (s_dtype s))"
      using u that(2) by (simp add: apply_savgol_filter_def Let_def)
    then show ?thesis by (simp only: deg)
  qed
  have C: "\<exists>r. apply_savgol_filter flt s window_length polyorder deriv = Inr r"
    if only: "\<forall>x w p d e. flt x w p d = Inl e \<longrightarrow> is_ValueError e"
  proof (cases "flt (s_np s) (effective_window_length s window_length polyorder) polyorder deriv")
    case (Inl e)
    with only have "is_ValueError e" by blast
    with Inl show ?thesis using u by (simp add: apply_savgol_filter_def Let_def)
  next
    case (Inr y)
    then show ?thesis using u by (simp add: apply_savgol_filter_def Let_def)
  qed
  have fl: "s_dtype s = Float64 \<longrightarrow> s_values ?degraded = ?filled"
    by (simp add: cast_float_values)
  have K: "\<forall>i w. i < length xs \<and> xs ! i = Some w \<longrightarrow> ?filled ! i = Some w"
    using filled_keeps by blast
  have I: "\<forall>a ya b yb e. a < e \<and> e < b \<and> b < length xs \<and> xs ! a = Some ya \<and> xs ! b = Some yb \<and>
                    (\<forall>k. a < k \<and> k < b \<longrightarrow> xs ! k = None)
               \<longrightarrow> ?filled ! e
                     = Some (f_add ya (f_mul (Fin (of_nat (e - a)))
                                            (f_div (f_sub yb ya) (Fin (of_nat (b - a))))))"
  proof (intro allI impI)
    fix a ya b yb e
    assume h: "a < e \<and> e < b \<and> b < length xs \<and> xs ! a = Some ya \<and> xs ! b = Some yb \<and>
                    (\<forall>k. a < k \<and> k < b \<longrightarrow> xs ! k = None)"
    then have "a < b" by simp
    from filled_between[OF this, of xs ya yb e] h
    show "?filled ! e = Some (f_add ya (f_mul (Fin (of_nat (e - a)))
                                            (f_div (f_sub yb ya) (Fin (of_nat (b - a))))))"
      by simp
  qed
  have J: "\<forall>a p b q e. a < e \<and> e < b \<and> b < length xs \<and>
                    xs ! a = Some (Fin p) \<and> xs ! b = Some (Fin q) \<and>
                    (\<forall>k. a < k \<and> k < b \<longrightarrow> xs ! k = None)
               \<longrightarrow> ?filled ! e = Some (Fin (p + of_nat (e - a) * ((q - p) / of_nat (b - a))))"
  proof (intro allI impI)
    fix a p b q e
    assume h: "a < e \<and> e < b \<and> b < length xs \<and>
                    xs ! a = Some (Fin p) \<and> xs ! b = Some (Fin q) \<and>
                    (\<forall>k. a < k \<and> k < b \<longrightarrow> xs ! k = None)"
    then have "a < b" by simp
    from filled_between_finite[OF this, of xs p q e] h
    show "?filled ! e = Some (Fin (p + of_nat (e - a) * ((q - p) / of_nat (b - a))))"
      by simp
  qed
  have L: "\<forall>a ya e. a < length xs \<and> xs ! a = Some ya \<and> (\<forall>k<a. xs ! k = None) \<and> e \<le> a
               \<longrightarrow> ?filled ! e = Some ya"
    using filled_leading by blast
  have T: "\<forall>b yb e. b < length xs \<and> xs ! b = Some yb \<and>
                    (\<forall>k. b < k \<and> k < length xs \<longrightarrow> xs ! k = None) \<and> b \<le> e \<and> e < length xs
               \<longrightarrow> ?filled ! e = Some yb"
    using filled_trailing by blast
  have N: "None \<notin> set ?filled"
    using filled_no_null[of v xs] assms(1,3) by simp
  have len: "length ?filled = length xs" by simp
  have R: "\<exists>degraded np usable window.
              degraded = ?degraded \<and>
              (s_dtype s = Float64 \<longrightarrow> s_values degraded = ?filled) \<and>
              np = ?np \<and>
              usable = int (length (filter (\<lambda>x. x \<noteq> NaN) np)) \<and> 0 < usable \<and>
              window = (if adjust_window window_length polyorder > usable
                        then (if usable mod 2 \<noteq> 0 then usable else max 1 (usable - 1))
                        else adjust_window window_length polyorder) \<and>
              (window \<le> polyorder \<longrightarrow>
                 apply_savgol_filter flt s window_length polyorder deriv = Inr degraded) \<and>
              (\<forall>e. flt np window polyorder deriv = Inl e \<and> is_ValueError e \<longrightarrow>
                 apply_savgol_filter flt s window_length polyorder deriv = Inr degraded) \<and>
              ((\<forall>x w p d e. flt x w p d = Inl e \<longrightarrow> is_ValueError e) \<longrightarrow>
                 (\<exists>r. apply_savgol_filter flt s window_length polyorder deriv = Inr r))"
    using fl pos A B C
    by (intro exI[of _ ?degraded] exI[of _ ?np] exI[of _ ?usable] exI[of _ ?window] conjI refl)
       blast+
  show ?thesis
    using len N K I J L T R by (intro exI[of _ ?filled] conjI)
qed

theorem C2_smoother_degrades_witness:
  "Some (Fin 1) \<in> set (s_values example_series) \<and> Fin 1 \<noteq> NaN \<and>
   apply_savgol_filter probe_filter example_series 5 3 0
     = Inr \<lparr>s_name = ''X'', s_dtype = Float64,
            s_values = [Some (Fin 1), Some (Fin 1), Some (Fin 2), Some (Fin 3)]\<rparr> \<and>
   failing_filter [Fin 1, Fin 1, Fin 2, Fin 3] 3 1 0 = Inl LinAlgError \<and>
   is_ValueError LinAlgError \<and>
   apply_savgol_filter failing_filter example_series 3 1 0
     = Inr \<lparr>s_name = ''X'', s_dtype = Float64,
            s_values = [Some (Fin 1), Some (Fin 1), Some (Fin 2), Some (Fin 3)]\<rparr>"
proof -
  let ?xs = "s_values example_series"
  let ?vals = "[Some (Fin 1), Some (Fin 1), Some (Fin 2), Some (Fin 3)]"
  have h1: "Some (Fin 1) \<in> set ?xs" by (simp add: example_series_def)
  have h2: "Fin 1 \<noteq> NaN" by simp
  have h4: "failing_filter [Fin 1, Fin 1, Fin 2, Fin 3] 3 1 0 = Inl LinAlgError"
    by (simp add: failing_filter_def)
  have h5: "is_ValueError LinAlgError" by (simp add: is_ValueError_def)
  have xs: "?xs = [None, Some (Fin 1), None, Some (Fin 3)]" by (simp add: example_series_def)
  have nm: "s_name example_series = ''X''" and dt: "s_dtype example_series = Float64"
    by (simp_all add: example_series_def)
  have filled_eq: "filled = ?vals"
    if hlen: "length filled = length ?xs"
      and hk: "\<forall>i w. i < length ?xs \<and> ?xs ! i = Some w \<longrightarrow> filled ! i = Some w"
      and hj: "\<forall>a p b q e. a < e \<and> e < b \<and> b < length ?xs \<and>
                    ?xs ! a = Some (Fin p) \<and> ?xs ! b = Some (Fin q) \<and>
                    (\<forall>k. a < k \<and> k < b \<longrightarrow> ?xs ! k = None)
               \<longrightarrow> filled ! e = Some (Fin (p + of_nat (e - a) * ((q - p) / of_nat (b - a))))"
      and hl: "\<forall>a ya e. a < length ?xs \<and> ?xs ! a = Some ya \<and> (\<forall>k<a. ?xs ! k = None) \<and> e \<le> a
               \<longrightarrow> filled ! e = Some ya"
    for filled
  proof -
    have "1 < length ?xs \<and> ?xs ! 1 = Some (Fin 1) \<and> (\<forall>k<1. ?xs ! k = None) \<and> (0::nat) \<le> 1"
      by (simp add: xs)
    from hl[THEN spec, THEN spec, THEN spec, THEN mp, OF this]
    have f0: "filled ! 0 = Some (Fin 1)" .
    have "1 < length ?xs \<and> ?xs ! 1 = Some (Fin 1)" by (simp add: xs)
    from hk[THEN spec, THEN spec, THEN mp, OF this]
    have f1: "filled ! 1 = Some (Fin 1)" .
    have "3 < length ?xs \<and> ?xs ! 3 = Some (Fin 3)" by (simp add: xs)
    from hk[THEN spec, THEN spec, THEN mp, OF this]
    have f3: "filled ! 3 = Some (Fin 3)" .
    have gap: "\<forall>k. 1 < k \<and> k < 3 \<longrightarrow> ?xs ! k = None"
    proof (intro allI impI)
      fix k :: nat assume "1 < k \<and> k < 3"
      then have "k = 2" by simp
      then show "?xs ! k = None" by (simp add: xs)
    qed
    have "(1::nat) < 2 \<and> (2::nat) < 3 \<and> 3 < length ?xs \<and>
          ?xs ! 1 = Some (Fin 1) \<and> ?xs ! 3 = Some (Fin 3) \<and>
          (\<forall>k. 1 < k \<and> k < 3 \<longrightarrow> ?xs ! k = None)"
      using gap by (simp add: xs)
    from hj[THEN spec, THEN spec, THEN spec, THEN spec, THEN spec, THEN mp, OF this]
    have f2: "filled ! 2 = Some (Fin 2)" by simp
    have l4: "length filled = 4" using hlen by (simp add: xs)
    show ?thesis
    proof (rule nth_equalityI)
      show "length filled = length ?vals" using l4 by simp
    next
      fix i assume "i < length filled"
      then have "i = 0 \<or> i = 1 \<or> i = 2 \<or> i = 3" using l4 by linarith
      then show "filled ! i = ?vals ! i" using f0 f1 f2 f3 by auto
    qed
  qed
  have r1: "apply_savgol_filter probe_filter example_series 5 3 0
     = Inr \<lparr>s_name = ''X'', s_dtype = Float64, s_values = ?vals\<rparr>"
  proof -
    from C2_smoother_degrades[OF h1 h2 refl, of 5 3 probe_filter 0]
    obtain filled degraded np usable window where
      hlen: "length filled = length ?xs"
      and hk: "\<forall>i w. i < length ?xs \<and> ?xs ! i = Some w \<longrightarrow> filled ! i = Some w"
      and hj: "\<forall>a p b q e. a < e \<and> e < b \<and> b < length ?xs \<and>
                    ?xs ! a = Some (Fin p) \<and> ?xs ! b = Some (Fin q) \<and>
                    (\<forall>k. a < k \<and> k < b \<longrightarrow> ?xs ! k = None)
               \<longrightarrow> filled ! e = Some (Fin (p + of_nat (e - a) * ((q - p) / of_nat (b - a))))"
      and hl: "\<forall>a ya e. a < length ?xs \<and> ?xs ! a = Some ya \<and> (\<forall>k<a. ?xs ! k = None) \<and> e \<le> a
               \<longrightarrow> filled ! e = Some ya"
      and fl: "s_dtype example_series = Float64 \<longrightarrow> s_values degraded = filled"
      and deg: "degraded = \<lparr>s_name = s_name example_series, s_dtype = s_dtype example_series,
                          s_values = map (\<lambda>c. Option.bind c (cast_value (s_dtype example_series))) filled\<rparr>"
      and np: "np = map (\<lambda>c. case c of None \<Rightarrow> NaN | Some x \<Rightarrow> x) filled"
      and us: "usable = int (length (filter (\<lambda>x. x \<noteq> NaN) np))"
      and w: "window = (if adjust_window 5 3 > usable
                        then (if usable mod 2 \<noteq> 0 then usable else max 1 (usable - 1))
                        else adjust_window 5 3)"
      and A: "window \<le> 3 \<longrightarrow> apply_savgol_filter probe_filter example_series 5 3 0 = Inr degraded"
      by (elim exE conjE) (rule that)
    have f: "filled = ?vals" by (rule filled_eq[OF hlen hk hj hl])
    have d: "degraded = \<lparr>s_name = ''X'', s_dtype = Float64, s_values = ?vals\<rparr>"
    proof -
      have "s_values degraded = ?vals" using fl dt f by simp
      then show ?thesis unfolding deg nm dt by simp
    qed
    have "usable = 4" unfolding us np f by simp
    then have "window = 3" unfolding w by (simp add: adjust_window_def)
    with A d show ?thesis by simp
  qed
  have r2: "apply_savgol_filter failing_filter example_series 3 1 0
     = Inr \<lparr>s_name = ''X'', s_dtype = Float64, s_values = ?vals\<rparr>"
  proof -
    from C2_smoother_degrades[OF h1 h2 refl, of 3 1 failing_filter 0]
    obtain filled degraded np usable window where
      hlen: "length filled = length ?xs"
      and hk: "\<forall>i w. i < length ?xs \<and> ?xs ! i = Some w \<longrightarrow> filled ! i = Some w"
      and hj: "\<forall>a p b q e. a < e \<and> e < b \<and> b < length ?xs \<and>
                    ?xs ! a = Some (Fin p) \<and> ?xs ! b = Some (Fin q) \<and>
                    (\<forall>k. a < k \<and> k < b \<longrightarrow> ?xs ! k = None)
               \<longrightarrow> filled ! e = Some (Fin (p + of_nat (e - a) * ((q - p) / of_nat (b - a))))"
      and hl: "\<forall>a ya e. a < length ?xs \<and> ?xs ! a = Some ya \<and> (\<forall>k<a. ?xs ! k = None) \<and> e \<le> a
               \<longrightarrow> filled ! e = Some ya"
      and fl: "s_dtype example_series = Float64 \<longrightarrow> s_values degraded = filled"
      and deg: "degraded = \<lparr>s_name = s_name example_series, s_dtype = s_dtype example_series,
                          s_values = map (\<lambda>c. Option.bind c (cast_value (s_dtype example_series))) filled\<rparr>"
      and np: "np = map (\<lambda>c. case c of None \<Rightarrow> NaN | Some x \<Rightarrow> x) filled"
      and us: "usable = int (length (filter (\<lambda>x. x \<noteq> NaN) np))"
      and w: "window = (if adjust_window 3 1 > usable
                        then (if usable mod 2 \<noteq> 0 then usable else max 1 (usable - 1))
                        else adjust_window 3 1)"
      and B: "\<forall>e. failing_filter np window 1 0 = Inl e \<and> is_ValueError e \<longrightarrow>
                 apply_savgol_filter failing_filter example_series 3 1 0 = Inr degraded"
      by (elim exE conjE) (rule that)
    have f: "filled = ?vals" by (rule filled_eq[OF hlen hk hj hl])
    have d: "degraded = \<lparr>s_name = ''X'', s_dtype = Float64, s_values = ?vals\<rparr>"
    proof -
      have "s_values degraded = ?vals" using fl dt f by simp
      then show ?thesis unfolding deg nm dt by simp
    qed
    have n: "np = [Fin 1, Fin 1, Fin 2, Fin 3]" unfolding np f by simp
    have "usable = 4" unfolding us n by simp
    then have wv: "window = 3" unfolding w by (simp add: adjust_window_def)
    have "failing_filter np window 1 0 = Inl LinAlgError \<and> is_ValueError LinAlgError"
      using h4 h5 unfolding n wv by simp
    from B[THEN spec, THEN mp, OF this] d show ?thesis by simp
  qed
  show ?thesis using h1 h2 r1 h4 h5 r2 by (intro conjI)
qed

text \<open>
  On a column whose values are all NaN the usable sample count is zero and the
  function returns an all-null column, not the filled column.
\<close>

theorem C2_nan_column_counterexample:
  "s_values nan_series \<noteq> [] \<and> Some NaN \<in> set (s_values nan_series) \<and>
   s_processed nan_series = nan_series \<and>
   effective_window_length nan_series 5 3 \<le> 3 \<and>
   apply_savgol_filter probe_filter nan_series 5 3 0
     = Inr \<lparr>s_name = ''X'', s_dtype = Float64, s_values = [None, None]\<rparr> \<and>
   apply_savgol_filter probe_filter nan_series 5 3 0
     \<noteq> Inr (cast (s_processed nan_series) (s_dtype nan_series))"
  by code_simp



text \<open>An exception of the filter that is not a \<open>ValueError\<close> is not handled.\<close>

lemma apply_savgol_filter_propagates:
  assumes "Some v \<in> set (s_values s)" and "v \<noteq> NaN"
    and "polyorder < effective_window_length s window_length polyorder"
    and "flt (s_np s) (effective_window_length s window_length polyorder) polyorder deriv = Inl e"
    and "\<not> is_ValueError e"
  shows "apply_savgol_filter flt s window_length polyorder deriv = Inl e"
  using usable_value_counts[OF assms(1,2)] assms(3,4,5)
  by (simp add: apply_savgol_filter_def Let_def)

text \<open>
  C4. With \<open>window_length = 2\<close> and \<open>polyorder = 2\<close> the window is raised to 5 and
  the filter is called with 5: line 45 adds one for an even order, which gives the
  even number 4, and line 48 then makes it odd.
\<close>

theorem C4_window_for_even_polyorder:
  "adjust_window 2 2 = 5 \<and>
   apply_savgol_filter probe_filter
      \<lparr>s_name = ''X'', s_dtype = Float64,
       s_values = [Some (Fin 1), Some (Fin 2), Some (Fin 3), Some (Fin 4), Some (Fin 5),
                   Some (Fin 6), Some (Fin 7)]\<rparr> 2 2 0
    = Inr \<lparr>s_name = ''X'', s_dtype = Float64, s_values = replicate 7 (Some (Fin 5))\<rparr>"
  by code_simp


text \<open>
  C10. Whatever branch \<open>apply_savgol_filter\<close> returns through, the returned series
  has the length and the name of its input, for a filter that returns an array of
  the length of its input (as \<open>savgol_filter\<close> does); the only other outcome is an
  exception of the filter that is not a \<open>ValueError\<close>.
\<close>

theorem C10_length_and_name:
  assumes "\<forall>x w p d y. flt x w p d = Inr y \<longrightarrow> length y = length x"
  shows "case apply_savgol_filter flt s window_length polyorder deriv of
           Inr r \<Rightarrow> length (s_values r) = length (s_values s) \<and> s_name r = s_name s
         | Inl e \<Rightarrow> \<not> is_ValueError e \<and>
             flt (s_np s) (effective_window_length s window_length polyorder) polyorder deriv = Inl e"
proof (cases "flt (s_np s) (effective_window_length s window_length polyorder) polyorder deriv")
  case (Inl e)
  then show ?thesis
    by (simp add: apply_savgol_filter_def Let_def null_series_def)
next
  case (Inr y)
  with assms have "length y = length (s_np s)" by blast
  with Inr show ?thesis
    by (simp add: apply_savgol_filter_def Let_def null_series_def cast_def)
qed

theorem C10_length_and_name_witness:
  "\<exists>r. apply_savgol_filter probe_filter example_series 3 1 0 = Inr r \<and>
        length (s_values r) = length (s_values example_series) \<and> s_name r = ''X''"
proof -
  have h: "\<forall>x w p d y. probe_filter x w p d = Inr y \<longrightarrow> length y = length x"
    by (auto simp: probe_filter_def)
  have e: "apply_savgol_filter probe_filter example_series 3 1 0
     = Inr \<lparr>s_name = ''X'', s_dtype = Float64, s_values = replicate 4 (Some (Fin 3))\<rparr>"
    by code_simp
  from C10_length_and_name[OF h, of example_series 3 1 0] e
  show ?thesis by (simp add: example_series_def)
qed

section \<open>Properties of the Derived Series Evaluator\<close>

lemma columns_with_column:
  "columns (with_column df nm vs) = (if nm \<in> set (columns df) then columns df else columns df @ [nm])"
proof -
  have "map fst (map (\<lambda>(c, old). if c = nm then (c, Nums vs) else (c, old)) df) = map fst df"
    by (induction df) auto
  then show ?thesis by (simp add: with_column_def columns_def)
qed

lemma agg_loop_append: "agg_loop (xs @ ys) st = agg_loop ys (agg_loop xs st)"
  by (induction xs arbitrary: st) simp_all

lemma agg_step_other_column:
  "n \<noteq> fst item \<Longrightarrow>
     n \<in> set (columns (df_data_pl (agg_step item st))) \<longleftrightarrow> n \<in> set (columns (df_data_pl st))"
  by (auto simp: agg_step_def Let_def columns_with_column split: sum.splits if_splits)

lemma agg_step_other_symbol:
  "n \<noteq> fst item \<Longrightarrow>
     n \<in> symbol ` set (new_symbols_metadata (agg_step item st))
       \<longleftrightarrow> n \<in> symbol ` set (new_symbols_metadata st)"
  by (auto simp: agg_step_def Let_def split: sum.splits if_splits)

lemma agg_loop_other_column:
  "n \<notin> fst ` set items \<Longrightarrow>
     n \<in> set (columns (df_data_pl (agg_loop items st))) \<longleftrightarrow> n \<in> set (columns (df_data_pl st))"
proof (induction items arbitrary: st)
  case Nil then show ?case by simp
next
  case (Cons item items)
  then have "n \<noteq> fst item" "n \<notin> fst ` set items" by auto
  then show ?case using Cons.IH[of "agg_step item st"] agg_step_other_column[of n item st] by simp
qed

lemma agg_loop_other_symbol:
  "n \<notin> fst ` set items \<Longrightarrow>
     n \<in> symbol ` set (new_symbols_metadata (agg_loop items st))
       \<longleftrightarrow> n \<in> symbol ` set (new_symbols_metadata st)"
proof (induction items arbitrary: st)
  case Nil then show ?case by simp
next
  case (Cons item items)
  then have "n \<noteq> fst item" "n \<notin> fst ` set items" by auto
  then show ?case using Cons.IH[of "agg_step item st"] agg_step_other_symbol[of n item st] by simp
qed

lemma agg_step_missing:
  assumes "\<exists>comp\<in>set (components d). comp \<notin> set (columns (df_data_pl st))"
  shows "agg_step (n, d) st = st\<lparr>skipped_aggregates := skipped_aggregates st + 1\<rparr>"
proof -
  from assms have "filter (\<lambda>comp. comp \<notin> set (columns (df_data_pl st))) (components d) \<noteq> []"
    by (auto simp: filter_empty_conv)
  then show ?thesis by (simp add: agg_step_def Let_def)
qed

lemma symbols_insert_symbols:
  "symbol ` set (insert_symbols t m) = symbol ` set t \<union> symbol ` set m"
  by (auto simp: insert_symbols_def)


text \<open>
  C3. On a grid where GDP and the S&P 500 opening price are zero on the same day,
  the rule \<open>BUSLOANS_by_GDP\<close> divides by the zero and produces an infinity on that
  day, while \<open>GSPC_DailySwing\<close>, the one rule of the catalog that nulls a zero
  denominator before dividing, produces null.
\<close>

theorem C3_zero_denominator:
  "\<exists>r. create_aggregate_series aggregations_config None example_grid = Some r \<and>
       map_of (final_frame r) ''BUSLOANS_by_GDP'' = Some (Nums [Some (Fin 5), Some PInf]) \<and>
       map_of (final_frame r) ''GSPC_DailySwing'' = Some (Nums [Some (Fin (1/5)), None])"
proof -
  have "map_option (\<lambda>r. (map_of (final_frame r) ''BUSLOANS_by_GDP'', map_of (final_frame r) ''GSPC_DailySwing''))
          (create_aggregate_series aggregations_config None example_grid)
        = Some (Some (Nums [Some (Fin 5), Some PInf]), Some (Nums [Some (Fin (1/5)), None]))"
    by code_simp
  then show ?thesis by auto
qed

text \<open>
  C5. A definition of the catalog with a component that is absent from the columns
  when its turn comes changes nothing but the count of skipped definitions: no
  column is added, no metadata entry appended. The loop goes on with the remaining
  definitions, and at the end the table has a column of that name only if the grid
  had one, the new metadata has no entry for it, and the symbols table has one only
  if it had one before.
\<close>

theorem C5_missing_component_skipped:
  assumes nonempty: "\<not> pd_empty df_interpolated"
    and catalog: "aggregations = pre @ (n, d) # post"
    and names: "distinct (map fst aggregations)"
    and before: "st = agg_loop pre \<lparr>df_data_pl = from_pandas df_interpolated, new_symbols_metadata = [],
                    successful_aggregates = 0, skipped_aggregates = 0\<rparr>"
    and missing: "\<exists>comp\<in>set (components d). comp \<notin> set (columns (df_data_pl st))"
  shows "agg_step (n, d) st = st\<lparr>skipped_aggregates := skipped_aggregates st + 1\<rparr> \<and>
         (\<exists>r. create_aggregate_series aggregations con df_interpolated = Some r \<and>
              final_state r = agg_loop post (st\<lparr>skipped_aggregates := skipped_aggregates st + 1\<rparr>) \<and>
              (n \<in> set (columns (final_frame r)) \<longleftrightarrow> n \<in> set (columns (from_pandas df_interpolated))) \<and>
              n \<notin> symbol ` set (new_symbols_metadata (final_state r)) \<and>
              (\<forall>t. con = Some t \<longrightarrow>
                 (\<exists>t'. symbols_table r = Some t' \<and>
                    (n \<in> symbol ` set t' \<longleftrightarrow> n \<in> symbol ` set t))))"
proof -
  let ?st0 = "\<lparr>df_data_pl = from_pandas df_interpolated, new_symbols_metadata = [],
                    successful_aggregates = 0, skipped_aggregates = 0\<rparr>"
  let ?st' = "st\<lparr>skipped_aggregates := skipped_aggregates st + 1\<rparr>"
  let ?fin = "agg_loop post ?st'"
  have step: "agg_step (n, d) st = ?st'" by (rule agg_step_missing[OF missing])
  have run: "agg_loop aggregations ?st0 = ?fin"
    by (simp add: catalog agg_loop_append before[symmetric] step)
  from names have npre: "n \<notin> fst ` set pre" and npost: "n \<notin> fst ` set post"
    by (auto simp: catalog)
  have cols: "n \<in> set (columns (df_data_pl ?fin)) \<longleftrightarrow> n \<in> set (columns (from_pandas df_interpolated))"
    using agg_loop_other_column[OF npost, of ?st'] agg_loop_other_column[OF npre, of ?st0]
    by (simp add: before)
  have meta: "n \<notin> symbol ` set (new_symbols_metadata ?fin)"
    using agg_loop_other_symbol[OF npost, of ?st'] agg_loop_other_symbol[OF npre, of ?st0]
    by (simp add: before)
  let ?r = "\<lparr>final_frame = df_data_pl ?fin,
             symbols_table = (case con of None \<Rightarrow> None
                     | Some t \<Rightarrow> if new_symbols_metadata ?fin \<noteq> []
                                 then Some (insert_symbols t (new_symbols_metadata ?fin))
                                 else Some t),
             final_state = ?fin\<rparr>"
  have res: "create_aggregate_series aggregations con df_interpolated = Some ?r"
    unfolding create_aggregate_series_def Let_def run using nonempty by (rule if_not_P)
  have table: "\<forall>t. con = Some t \<longrightarrow>
                 (\<exists>t'. symbols_table ?r = Some t' \<and>
                    (n \<in> symbol ` set t' \<longleftrightarrow> n \<in> symbol ` set t))"
    using meta by (auto simp: symbols_insert_symbols)
  show ?thesis
    using step res cols meta table by (intro conjI exI[of _ ?r]) simp_all
qed

theorem C5_missing_component_skipped_witness:
  "\<not> pd_empty example_grid \<and>
   aggregations_config
     = take 4 aggregations_config
         @ (''BUSLOANS_INTEREST'', snd (aggregations_config ! 4)) # drop 5 aggregations_config \<and>
   distinct (map fst aggregations_config) \<and>
   ''DGS10'' \<in> set (components (snd (aggregations_config ! 4))) \<and>
   ''DGS10'' \<notin> set (columns (df_data_pl (agg_loop (take 4 aggregations_config)
        \<lparr>df_data_pl = from_pandas example_grid, new_symbols_metadata = [],
         successful_aggregates = 0, skipped_aggregates = 0\<rparr>))) \<and>
   (\<exists>r. create_aggregate_series aggregations_config (Some []) example_grid = Some r \<and>
        ''BUSLOANS_INTEREST'' \<notin> set (columns (final_frame r)) \<and>
        ''BUSLOANS_INTEREST'' \<notin> symbol ` set (new_symbols_metadata (final_state r)) \<and>
        columns (final_frame r)
          = [''date'', ''BUSLOANS'', ''GDP'', ''^GSPC_high'', ''^GSPC_low'', ''^GSPC_open'',
             ''BUSLOANS_by_GDP'', ''GSPC_DailySwing''] \<and>
        (\<exists>t'. symbols_table r = Some t' \<and> ''BUSLOANS_INTEREST'' \<notin> symbol ` set t'))"
proof -
  let ?st0 = "\<lparr>df_data_pl = from_pandas example_grid, new_symbols_metadata = [],
         successful_aggregates = 0, skipped_aggregates = 0\<rparr>"
  let ?st = "agg_loop (take 4 aggregations_config) ?st0"
  have h1: "\<not> pd_empty example_grid" by code_simp
  have h2: "aggregations_config
     = take 4 aggregations_config
         @ (''BUSLOANS_INTEREST'', snd (aggregations_config ! 4)) # drop 5 aggregations_config"
    by code_simp
  have h3: "distinct (map fst aggregations_config)" by code_simp
  have h4: "''DGS10'' \<in> set (components (snd (aggregations_config ! 4)))" by code_simp
  have h5: "''DGS10'' \<notin> set (columns (df_data_pl ?st))" by code_simp
  from h4 h5 have h6: "\<exists>comp\<in>set (components (snd (aggregations_config ! 4))).
      comp \<notin> set (columns (df_data_pl ?st))" by blast
  have g: "''BUSLOANS_INTEREST'' \<notin> set (columns (from_pandas example_grid))" by code_simp
  have e: "map_option (\<lambda>r. columns (final_frame r))
             (create_aggregate_series aggregations_config (Some []) example_grid)
           = Some [''date'', ''BUSLOANS'', ''GDP'', ''^GSPC_high'', ''^GSPC_low'', ''^GSPC_open'',
             ''BUSLOANS_by_GDP'', ''GSPC_DailySwing'']"
    by code_simp
  from C5_missing_component_skipped[OF h1 h2 h3 refl h6, of "Some []"] g
  obtain r where r: "create_aggregate_series aggregations_config (Some []) example_grid = Some r"
    "''BUSLOANS_INTEREST'' \<notin> set (columns (final_frame r))"
    "''BUSLOANS_INTEREST'' \<notin> symbol ` set (new_symbols_metadata (final_state r))"
    "\<exists>t'. symbols_table r = Some t' \<and> ''BUSLOANS_INTEREST'' \<notin> symbol ` set t'"
    by auto
  from e r(1) have "columns (final_frame r)
          = [''date'', ''BUSLOANS'', ''GDP'', ''^GSPC_high'', ''^GSPC_low'', ''^GSPC_open'',
             ''BUSLOANS_by_GDP'', ''GSPC_DailySwing'']" by simp
  with r h1 h2 h3 h4 h5 show ?thesis by blast
qed

section \<open>Properties of the Per-Symbol Feature Generator\<close>

lemma length_shift_values [simp]: "length (shift_values n xs) = length xs"
  by (auto simp: shift_values_def)

lemma shift_values_nth:
  assumes "0 \<le> n" "t < length xs"
  shows "shift_values n xs ! t = (if t < nat n then None else xs ! (t - nat n))"
proof (cases "t < nat n")
  case True
  then show ?thesis using assms by (simp add: shift_values_def nth_append)
next
  case False
  then have "min (nat n) (length xs) = nat n" using assms by simp
  then show ?thesis using assms False by (simp add: shift_values_def nth_append)
qed

lemma yoy_cell_null [simp]: "yoy_cell a None = None"
  by (simp add: yoy_cell_def lift2_def split: option.splits)

lemma yoy_series_nth:
  assumes "0 \<le> lag" "t < length (s_values s)"
  shows "s_values (yoy_series s lag nm) ! t
           = (if t < nat lag then None else yoy_cell (s_values s ! t) (s_values s ! (t - nat lag)))"
  using assms by (simp add: yoy_series_def shift_values_nth)

lemma yoy_cell_finite:
  "b \<noteq> 0 \<Longrightarrow> yoy_cell (Some (Fin a)) (Some (Fin b)) = Some (Fin ((a / b - 1) * 100))"
  by (simp add: yoy_cell_def lift2_def f_sub_def)

lemma yoy_series_name [simp]: "s_name (yoy_series s lag nm) = nm"
  by (simp add: yoy_series_def)

lemma yoy_series_length [simp]: "length (s_values (yoy_series s lag nm)) = length (s_values s)"
  by (simp add: yoy_series_def)

lemma yoy_series_rows:
  assumes "0 \<le> lag" "t < length (s_values v)"
  shows "s_name (yoy_series v lag nm) = nm \<and>
         length (s_values (yoy_series v lag nm)) = length (s_values v) \<and>
         (t < nat lag \<longrightarrow> s_values (yoy_series v lag nm) ! t = None) \<and>
         (nat lag \<le> t \<longrightarrow> s_values (yoy_series v lag nm) ! t
             = yoy_cell (s_values v ! t) (s_values v ! (t - nat lag))) \<and>
         (\<forall>a b. nat lag \<le> t \<and> s_values v ! t = Some (Fin a) \<and>
                 s_values v ! (t - nat lag) = Some (Fin b) \<and> b \<noteq> 0
            \<longrightarrow> s_values (yoy_series v lag nm) ! t = Some (Fin ((a / b - 1) * 100)))"
  using yoy_series_nth[OF assms, of nm] by (auto simp: yoy_cell_finite)


text \<open>
  C8. For a year of \<open>n_days_year\<close> rows and each of the lags 1, 4 and 5 years, the
  year-over-year feature of a column \<open>v\<close> is null on the rows before the lag and
  \<open>((v[t] / v[t - L]) - 1) * 100\<close> on row \<open>t\<close> from the lag on (null where either
  value is null); on finite values with a non-zero denominator this is the number
  \<open>(v[t] / v[t - L] - 1) * 100\<close>.
\<close>

theorem C8_year_over_year:
  assumes "0 \<le> n_days_year" and "t < length (s_values v)" and "j < 3"
    and "L = nat ([1, 4, 5] ! j * n_days_year)"
    and "feature = fst (calculate_yoy_features_series v prefix description_r d0 d1 n_days_year) ! j"
  shows "s_name feature = prefix @ [''_YoY'', ''_YoY4'', ''_YoY5''] ! j \<and>
         length (s_values feature) = length (s_values v) \<and>
         (t < L \<longrightarrow> s_values feature ! t = None) \<and>
         (L \<le> t \<longrightarrow> s_values feature ! t = yoy_cell (s_values v ! t) (s_values v ! (t - L))) \<and>
         (\<forall>a b. L \<le> t \<and> s_values v ! t = Some (Fin a) \<and> s_values v ! (t - L) = Some (Fin b) \<and> b \<noteq> 0
            \<longrightarrow> s_values feature ! t = Some (Fin ((a / b - 1) * 100)))"
proof -
  from assms(3) consider "j = 0" | "j = 1" | "j = 2" by linarith
  then show ?thesis
  proof cases
    case 1
    then have f: "feature = yoy_series v n_days_year (prefix @ ''_YoY'')" and L: "L = nat n_days_year"
      and nm: "prefix @ [''_YoY'', ''_YoY4'', ''_YoY5''] ! j = prefix @ ''_YoY''"
      using assms(4,5) by (simp_all add: calculate_yoy_features_series_def Let_def)
    show ?thesis
      unfolding f L nm by (rule yoy_series_rows[OF assms(1,2)])
  next
    case 2
    have lag: "0 \<le> n_days_year * 4" using assms(1) by simp
    from 2 have f: "feature = yoy_series v (n_days_year * 4) (prefix @ ''_YoY4'')"
      and L: "L = nat (n_days_year * 4)"
      and nm: "prefix @ [''_YoY'', ''_YoY4'', ''_YoY5''] ! j = prefix @ ''_YoY4''"
      using assms(4,5) by (simp_all add: calculate_yoy_features_series_def Let_def mult.commute)
    show ?thesis
      unfolding f L nm by (rule yoy_series_rows[OF lag assms(2)])
  next
    case 3
    have lag: "0 \<le> n_days_year * 5" using assms(1) by simp
    from 3 have f: "feature = yoy_series v (n_days_year * 5) (prefix @ ''_YoY5'')"
      and L: "L = nat (n_days_year * 5)"
      and nm: "prefix @ [''_YoY'', ''_YoY4'', ''_YoY5''] ! j = prefix @ ''_YoY5''"
      using assms(4,5) by (simp_all add: calculate_yoy_features_series_def Let_def mult.commute)
    show ?thesis
      unfolding f L nm by (rule yoy_series_rows[OF lag assms(2)])
  qed
qed

theorem C8_year_over_year_witness:
  "(0::int) \<le> 365 \<and> 365 < length (s_values example_year) \<and> (0::nat) < 3 \<and>
   s_values example_year ! 365 = Some (Fin 465) \<and> s_values example_year ! 0 = Some (Fin 100) \<and>
   s_name (fst (calculate_yoy_features_series example_year ''X'' ''x'' ''a'' ''b'' 365) ! 0) = ''X_YoY'' \<and>
   s_values (fst (calculate_yoy_features_series example_year ''X'' ''x'' ''a'' ''b'' 365) ! 0) ! 365
     = Some (Fin ((465 / 100 - 1) * 100)) \<and>
   s_values (fst (calculate_yoy_features_series example_year ''X'' ''x'' ''a'' ''b'' 365) ! 0) ! 364
     = None"
proof -
  let ?f = "fst (calculate_yoy_features_series example_year ''X'' ''x'' ''a'' ''b'' 365) ! 0"
  have h1: "(0::int) \<le> 365" by simp
  have h2: "365 < length (s_values example_year)" by (simp add: example_year_def)
  have h2': "364 < length (s_values example_year)" by (simp add: example_year_def)
  have h3: "(0::nat) < 3" by simp
  have h4: "365 = nat ([1, 4, 5] ! 0 * 365)" by simp
  have v365: "s_values example_year ! 365 = Some (Fin 465)" by (simp add: example_year_def)
  have v0: "s_values example_year ! 0 = Some (Fin 100)"
    by (simp add: example_year_def upt_rec[of 0])
  note A = C8_year_over_year[OF h1 h2 h3 h4 refl, of "''X''" "''x''" "''a''" "''b''"]
  note B = C8_year_over_year[OF h1 h2' h3 h4 refl, of "''X''" "''x''" "''a''" "''b''"]
  have r1: "s_name ?f = ''X_YoY''" using A by simp
  have r2: "s_values ?f ! 365 = Some (Fin ((465 / 100 - 1) * 100))"
    using A v365 v0 by (simp add: yoy_cell_def lift2_def f_sub_def)
  have r3: "s_values ?f ! 364 = None" using B by simp
  show ?thesis using h1 h2 h3 v365 v0 r1 r2 r3 by blast
qed


lemma length_rolling_mean: "rolling_mean w mp xs = Inr ys \<Longrightarrow> length ys = length xs"
  by (auto simp: rolling_mean_def split: if_splits)

lemma mva_feature_props:
  assumes "0 < snd cfg"
  shows "\<exists>f m. mva_feature v prefix desc label d0 d1 cfg = Inr (f, m) \<and>
           s_name f = prefix @ fst cfg \<and> m_symbol m = prefix @ fst cfg \<and>
           length (s_values f) = length (s_values v) \<and>
           (int (length (drop_nulls (s_values v))) < snd cfg \<longrightarrow>
              s_values f = replicate (length (s_values v)) None \<and> s_dtype f = Float64 \<and>
              m_source m = ''Calc (Skipped)'')"
proof (cases "int (length (drop_nulls (s_values v))) \<ge> snd cfg")
  case True
  from assms obtain means where m: "rolling_mean (snd cfg) 1 (s_values v) = Inr means"
    by (auto simp: rolling_mean_def)
  then have "length means = length (s_values v)" by (rule length_rolling_mean)
  then show ?thesis using True m by (simp add: mva_feature_def Let_def)
next
  case False
  then show ?thesis by (simp add: mva_feature_def Let_def null_series_def)
qed

text \<open>
  C9. For a positive year length, each of the three moving-average windows yields
  one feature column of the full length and one metadata record under the name of
  the column; when the base column has fewer non-null samples than the window, the
  column is all null, of type Float64, and the record's source is
  \<open>Calc (Skipped)\<close>.
\<close>

theorem C9_moving_average_skipped:
  assumes "0 < n_days_year" and "j < 3" and "cfg = mva_configs n_days_year ! j"
  shows "\<exists>features metas.
           calculate_mva_features_series v prefix description_r label_y_r d0 d1 n_days_year
             = Inr (features, metas) \<and>
           length features = 3 \<and> length metas = 3 \<and>
           s_name (features ! j) = prefix @ fst cfg \<and>
           m_symbol (metas ! j) = prefix @ fst cfg \<and>
           length (s_values (features ! j)) = length (s_values v) \<and>
           (int (length (drop_nulls (s_values v))) < snd cfg \<longrightarrow>
              s_values (features ! j) = replicate (length (s_values v)) None \<and>
              s_dtype (features ! j) = Float64 \<and>
              m_source (metas ! j) = ''Calc (Skipped)'')"
proof -
  let ?body = "mva_feature v prefix description_r label_y_r d0 d1"
  let ?P = "\<lambda>cfg f m. s_name f = prefix @ fst cfg \<and> m_symbol m = prefix @ fst cfg \<and>
           length (s_values f) = length (s_values v) \<and>
           (int (length (drop_nulls (s_values v))) < snd cfg \<longrightarrow>
              s_values f = replicate (length (s_values v)) None \<and> s_dtype f = Float64 \<and>
              m_source m = ''Calc (Skipped)'')"
  obtain f0 m0 where c0: "?body (''_mva365'', n_days_year) = Inr (f0, m0)"
    and p0: "?P (''_mva365'', n_days_year) f0 m0"
    using mva_feature_props[of "(''_mva365'', n_days_year)" v prefix description_r label_y_r d0 d1]
      assms(1) by auto
  obtain f1 m1 where c1: "?body (''_mva200'', 200) = Inr (f1, m1)"
    and p1: "?P (''_mva200'', 200) f1 m1"
    using mva_feature_props[of "(''_mva200'', 200)" v prefix description_r label_y_r d0 d1]
    by auto
  obtain f2 m2 where c2: "?body (''_mva050'', 50) = Inr (f2, m2)"
    and p2: "?P (''_mva050'', 50) f2 m2"
    using mva_feature_props[of "(''_mva050'', 50)" v prefix description_r label_y_r d0 d1]
    by auto
  have res: "calculate_mva_features_series v prefix description_r label_y_r d0 d1 n_days_year
               = Inr ([f0, f1, f2], [m0, m1, m2])"
    by (simp add: calculate_mva_features_series_def mva_configs_def c0 c1 c2)
  from assms(2) consider "j = 0" | "j = 1" | "j = 2" by linarith
  then have "?P cfg ([f0, f1, f2] ! j) ([m0, m1, m2] ! j)"
  proof cases
    case 1
    then have "cfg = (''_mva365'', n_days_year)" using assms(3) by (simp add: mva_configs_def)
    with p0 1 show ?thesis by simp
  next
    case 2
    then have "cfg = (''_mva200'', 200)" using assms(3) by (simp add: mva_configs_def)
    with p1 2 show ?thesis by simp
  next
    case 3
    then have "cfg = (''_mva050'', 50)" using assms(3) by (simp add: mva_configs_def)
    with p2 3 show ?thesis by simp
  qed
  with res show ?thesis by (intro exI[of _ "[f0, f1, f2]"] exI[of _ "[m0, m1, m2]"]) simp
qed


theorem C9_moving_average_skipped_witness:
  "(0::int) < 365 \<and> (1::nat) < 3 \<and> (''_mva200'', 200) = mva_configs 365 ! 1 \<and>
   int (length (drop_nulls (s_values example_series))) < 200 \<and>
   (\<exists>features metas.
      calculate_mva_features_series example_series ''X'' ''x'' ''y'' ''a'' ''b'' 365
        = Inr (features, metas) \<and>
      length features = 3 \<and>
      s_name (features ! 1) = ''X_mva200'' \<and>
      s_values (features ! 1) = [None, None, None, None] \<and>
      m_source (metas ! 1) = ''Calc (Skipped)'')"
proof -
  have h1: "(0::int) < 365" by simp
  have h2: "(1::nat) < 3" by simp
  have h3: "(''_mva200'', 200) = mva_configs 365 ! 1" by (simp add: mva_configs_def)
  have h4: "int (length (drop_nulls (s_values example_series))) < 200"
    by (simp add: example_series_def drop_nulls_def)
  have len: "length (s_values example_series) = 4" by (simp add: example_series_def)
  from C9_moving_average_skipped[OF h1 h2 h3, of example_series "''X''" "''x''" "''y''" "''a''" "''b''"]
    h4 len
  have "\<exists>features metas.
      calculate_mva_features_series example_series ''X'' ''x'' ''y'' ''a'' ''b'' 365
        = Inr (features, metas) \<and>
      length features = 3 \<and>
      s_name (features ! 1) = ''X_mva200'' \<and>
      s_values (features ! 1) = [None, None, None, None] \<and>
      m_source (metas ! 1) = ''Calc (Skipped)''"
    by (simp add: numeral_eq_Suc) blast
  with h1 h2 h3 h4 show ?thesis by blast
qed

section \<open>Properties of the Recession Window Labeler\<close>

lemma length_mark_window [simp]:
  "length (mark_window dates row f) = min (length dates) (length f)"
  by (simp add: mark_window_def)





lemma set_sort_by_date [simp]: "set (sort_by_date rows) = set rows"
  by (simp add: sort_by_date_def)


lemma dates_where_diff_Nil [simp]: "dates_where_diff k [] = []"
  by (simp add: dates_where_diff_def)



lemma window_of_month_start:
  "offset_minus_1y (month_start (y, m, d)) = (y - 1, m, 1) \<and>
   offset_minus_1mo (month_start (y, m, d)) = (if m = 1 then (y - 1, 12, 1) else (y, m - 1, 1))"
  by (simp add: days_in_month_def)




end
